theory Spec2Isabelle
  imports Complex_Main "HOL-Library.Multiset"
begin

section \<open>The cost estimator of the CDK diff workflow\<close>

text \<open>
  A shallow embedding of \<^verbatim>\<open>estimate-cost.js\<close>: the script reads a diff report and a
  resource map, prices every changed resource through the AWS Pricing API (memoised in
  \<^verbatim>\<open>priceCache\<close>), and renders a markdown table from the rows, the running total and
  the counters it has collected.

  Conventions of the embedding.
  \<^item> JavaScript numbers are exact reals; \<^verbatim>\<open>NaN\<close> appears only as the result of
    \<^verbatim>\<open>parseFloat\<close> and is the value \<open>None\<close> there.
  \<^item> \<^verbatim>\<open>null\<close> and \<^verbatim>\<open>undefined\<close> are \<open>None\<close>. A string is truthy when it is present and
    not empty, a number when it is present and not zero. The script tests its optional
    values by truthiness only, so it never tells an empty string or a zero from a missing
    value; where a property below says that a value is set or present, it is truthy.
  \<^item> The report and the map have the shapes their producers in this repository write
    (\<^verbatim>\<open>run-cdk-diff\<close> and \<^verbatim>\<open>generate-resource-map.mjs\<close>): the lists the script
    defaults with \<^verbatim>\<open>|| []\<close> are plain lists. The map is a plain object, so looking a
    resource type up in it finds the members every object inherits as well as its entries.
  \<^item> An exception that leaves \<^verbatim>\<open>main\<close> is recorded in the state; each loop stops at it,
    and the handler of \<^verbatim>\<open>main().catch\<close> turns it into the error of the output.
  \<^item> What the runtime and the network decide is a parameter, collected in \<open>env\<close>: the
    collation of \<^verbatim>\<open>localeCompare\<close>, \<^verbatim>\<open>parseFloat\<close>, the location name of the region,
    and the pricing service, whose answer may depend on every request sent before.
  \<^item> Messages written to standard error are not modelled.
\<close>

subsection \<open>Inputs: the diff report\<close>

record propertyChange =
  prop_name :: string
  impact :: string
  oldValue :: "string option"
  newValue :: "string option"

record resourceChange =
  logicalId :: string
  res_type :: string
  res_action :: string
  properties :: "propertyChange list"

record stackDiff =
  stackName :: string
  hasDiff :: bool
  resources :: "resourceChange list"

record changeReport =
  stacks :: "stackDiff list"

subsection \<open>Inputs: the resource map\<close>

record valueDef =
  vdefault :: "string option"
  cfProperty :: "string option"

record 'v fieldValue =
  Field :: string
  Value :: 'v

record mapping =
  serviceCode :: string
  unitLabel :: string
  monthlyHours :: "real option"
  monthlyQuantity :: "real option"
  filters :: "valueDef fieldValue list"
  rule_note :: "string option"

text \<open>
  The map is one JSON object: the key \<^verbatim>\<open>_free\<close> holds the list of free types, every key
  that does not start with an underscore holds a mapping.
\<close>

record resourceMap =
  free :: "string list"
  rules :: "string \<Rightarrow> mapping option"

text \<open>
  \<^verbatim>\<open>resourceMap[res.type]\<close>: an entry of the map, or else a member inherited from
  \<^verbatim>\<open>Object.prototype\<close> (a function, or the prototype itself: truthy, and without
  \<^verbatim>\<open>serviceCode\<close> and \<^verbatim>\<open>filters\<close>), or else undefined.
\<close>

datatype member = Undefined | Own mapping | Inherited

definition inheritedNames :: "string list" where
  "inheritedNames =
     [''constructor'', ''hasOwnProperty'', ''isPrototypeOf'', ''propertyIsEnumerable'',
      ''toLocaleString'', ''toString'', ''valueOf'', ''__defineGetter__'', ''__defineSetter__'',
      ''__lookupGetter__'', ''__lookupSetter__'', ''__proto__'']"

definition memberOf :: "resourceMap \<Rightarrow> string \<Rightarrow> member" where
  "memberOf rm t =
     (case rules rm t of
        Some m \<Rightarrow> Own m
      | None \<Rightarrow> if t \<in> set inheritedNames then Inherited else Undefined)"

subsection \<open>The pricing service\<close>

record termMatch =
  tm_Type :: string
  tm_Field :: string
  tm_Value :: string

record request =
  rq_ServiceCode :: string
  rq_Filters :: "termMatch list"
  rq_MaxResults :: nat

record priceDimension =
  pricePerUnit_USD :: "string option"
  dim_unit :: "string option"
  dim_description :: "string option"

record offer =
  priceDimensions :: "(string \<times> priceDimension) list option"

record product =
  terms_OnDemand :: "(string \<times> offer) list option"

text \<open>
  An element of \<^verbatim>\<open>PriceList\<close> is a JSON text; \<open>Unparsable\<close> stands for an element on which
  \<^verbatim>\<open>JSON.parse\<close> or the access to \<^verbatim>\<open>terms\<close> throws. Objects are association lists in the
  order of \<^verbatim>\<open>Object.keys\<close>.
\<close>

datatype priceItem = Unparsable string | Product product

datatype response = Threw string | Resp "priceItem list"

record priceEntry =
  usd :: real
  unit :: string
  description :: string

record cacheKey =
  key_serviceCode :: string
  key_filters :: "string fieldValue list"

record env =
  locationName :: string
  localeCompare :: "string \<Rightarrow> string \<Rightarrow> int"
  parseFloat :: "string \<Rightarrow> real option"
  send :: "request list \<Rightarrow> request \<Rightarrow> response"

subsection \<open>Output rows and the state of a run\<close>

record costRow =
  row_stack :: string
  row_id :: string
  row_type :: string
  detail :: string
  row_action :: string
  before :: "real option"
  after :: "real option"
  delta :: "real option"

record state =
  rows :: "costRow list"
  totalDelta :: real
  pricedCount :: nat
  freeCount :: nat
  priceCache :: "cacheKey \<Rightarrow> priceEntry option option"
  sent :: "request list"
  thrown :: "string option"

definition initial :: state where
  "initial = \<lparr>rows = [], totalDelta = 0, pricedCount = 0, freeCount = 0,
              priceCache = Map.empty, sent = [], thrown = None\<rparr>"

text \<open>
  A \<^verbatim>\<open>for ... of\<close> loop whose body may throw: the body runs on each element in turn, and
  the loop is left at the first exception.
\<close>

fun forEach :: "('a \<Rightarrow> state \<Rightarrow> state) \<Rightarrow> 'a list \<Rightarrow> state \<Rightarrow> state" where
  "forEach body [] s = s"
| "forEach body (x # xs) s =
     (let s1 = body x s in if thrown s1 = None then forEach body xs s1 else s1)"

subsection \<open>Truthiness\<close>

definition truthyStr :: "string option \<Rightarrow> bool" where
  "truthyStr v = (case v of None \<Rightarrow> False | Some s \<Rightarrow> s \<noteq> [])"

definition truthyNum :: "real option \<Rightarrow> bool" where
  "truthyNum v = (case v of None \<Rightarrow> False | Some x \<Rightarrow> x \<noteq> 0)"

text \<open>\<^verbatim>\<open>x || 0\<close> on a number or null.\<close>

definition orZero :: "real option \<Rightarrow> real" where
  "orZero v = (if truthyNum v then the v else 0)"

text \<open>\<^verbatim>\<open>x || null\<close> on a string or undefined.\<close>

definition orNull :: "string option \<Rightarrow> string option" where
  "orNull v = (if truthyStr v then v else None)"

subsection \<open>The pricing cache\<close>

text \<open>
  \<^verbatim>\<open>[...filters].sort((a, b) => a.Field.localeCompare(b.Field))\<close>: a stable sort by the
  comparator.
\<close>

fun insertBy :: "('a \<Rightarrow> 'a \<Rightarrow> int) \<Rightarrow> 'a \<Rightarrow> 'a list \<Rightarrow> 'a list" where
  "insertBy cmp x [] = [x]"
| "insertBy cmp x (y # ys) = (if cmp x y \<le> 0 then x # y # ys else y # insertBy cmp x ys)"

fun sortBy :: "('a \<Rightarrow> 'a \<Rightarrow> int) \<Rightarrow> 'a list \<Rightarrow> 'a list" where
  "sortBy cmp [] = []"
| "sortBy cmp (x # xs) = insertBy cmp x (sortBy cmp xs)"

text \<open>
  The key is the JSON text of the object below; \<^verbatim>\<open>JSON.stringify\<close> is one-to-one on
  objects of this shape, so the object itself is the key.
\<close>

definition cacheKey :: "env \<Rightarrow> string \<Rightarrow> string fieldValue list \<Rightarrow> cacheKey" where
  "cacheKey e sc fs =
     \<lparr>key_serviceCode = sc,
      key_filters = sortBy (\<lambda>a b. localeCompare e (Field a) (Field b)) fs\<rparr>"

definition allFilters :: "env \<Rightarrow> string fieldValue list \<Rightarrow> termMatch list" where
  "allFilters e fs =
     map (\<lambda>f. \<lparr>tm_Type = ''TERM_MATCH'', tm_Field = Field f, tm_Value = Value f\<rparr>) fs
     @ [\<lparr>tm_Type = ''TERM_MATCH'', tm_Field = ''location'', tm_Value = locationName e\<rparr>]"

definition getProducts :: "env \<Rightarrow> string \<Rightarrow> string fieldValue list \<Rightarrow> request" where
  "getProducts e sc fs =
     \<lparr>rq_ServiceCode = sc, rq_Filters = allFilters e fs, rq_MaxResults = 1\<rparr>"

text \<open>The inner loop of \<^verbatim>\<open>queryPrice\<close>: the first dimension with a price above zero.\<close>

definition priceText :: "priceDimension \<Rightarrow> string" where
  "priceText d = (if truthyStr (pricePerUnit_USD d) then the (pricePerUnit_USD d) else ''0'')"

fun scanDims :: "env \<Rightarrow> (string \<times> priceDimension) list \<Rightarrow> priceEntry option" where
  "scanDims e [] = None"
| "scanDims e ((dimKey, d) # ds) =
     (case parseFloat e (priceText d) of
        None \<Rightarrow> scanDims e ds
      | Some u \<Rightarrow>
          if 0 < u
          then Some \<lparr>usd = u,
                     unit = (if truthyStr (dim_unit d) then the (dim_unit d) else []),
                     description = (if truthyStr (dim_description d) then the (dim_description d) else [])\<rparr>
          else scanDims e ds)"

fun scanOffers :: "env \<Rightarrow> (string \<times> offer) list \<Rightarrow> priceEntry option" where
  "scanOffers e [] = None"
| "scanOffers e ((offerKey, off) # os) =
     (case priceDimensions off of
        None \<Rightarrow> scanOffers e os
      | Some dims \<Rightarrow>
          (case scanDims e dims of
             Some entry \<Rightarrow> Some entry
           | None \<Rightarrow> scanOffers e os))"

text \<open>The body of the \<^verbatim>\<open>try\<close> of \<^verbatim>\<open>queryPrice\<close> and its \<^verbatim>\<open>catch\<close>, on the response.\<close>

definition quoteOf :: "env \<Rightarrow> response \<Rightarrow> priceEntry option" where
  "quoteOf e resp =
     (case resp of
        Threw msg \<Rightarrow> None
      | Resp priceList \<Rightarrow>
          (case priceList of
             [] \<Rightarrow> None
           | item # _ \<Rightarrow>
               (case item of
                  Unparsable msg \<Rightarrow> None
                | Product p \<Rightarrow>
                    (case terms_OnDemand p of
                       None \<Rightarrow> None
                     | Some onDemand \<Rightarrow> scanOffers e onDemand))))"

definition queryPrice ::
  "env \<Rightarrow> string \<Rightarrow> string fieldValue list \<Rightarrow> state \<Rightarrow> priceEntry option \<times> state" where
  "queryPrice e sc fs s =
     (let key = cacheKey e sc fs in
      case priceCache s key of
        Some cached \<Rightarrow> (cached, s)
      | None \<Rightarrow>
          (let rq = getProducts e sc fs;
               entry = quoteOf e (send e (sent s) rq)
           in (entry, s\<lparr>priceCache := (priceCache s)(key \<mapsto> entry), sent := sent s @ [rq]\<rparr>)))"

subsection \<open>Filter resolution\<close>

definition resolveFilterValue ::
  "valueDef \<Rightarrow> propertyChange list \<Rightarrow> bool \<Rightarrow> string option" where
  "resolveFilterValue valueDef props useNew =
     (if truthyStr (vdefault valueDef) \<and> \<not> truthyStr (cfProperty valueDef) then vdefault valueDef
      else if truthyStr (cfProperty valueDef) then
        (case find (\<lambda>p. Some (prop_name p) = cfProperty valueDef) props of
           None \<Rightarrow> orNull (vdefault valueDef)
         | Some prop \<Rightarrow>
             (let val = (if useNew then newValue prop else oldValue prop) in
              if truthyStr val \<and> val \<noteq> Some ''null'' \<and> val \<noteq> Some ''undefined'' then val
              else orNull (vdefault valueDef)))
      else None)"

fun resolveAll ::
  "valueDef fieldValue list \<Rightarrow> propertyChange list \<Rightarrow> bool \<Rightarrow> string fieldValue list" where
  "resolveAll [] props useNew = []"
| "resolveAll (f # fs) props useNew =
     (let v = resolveFilterValue (Value f) props useNew in
      if truthyStr v then \<lparr>Field = Field f, Value = the v\<rparr> # resolveAll fs props useNew
      else resolveAll fs props useNew)"

definition buildFilters ::
  "mapping \<Rightarrow> propertyChange list \<Rightarrow> bool \<Rightarrow> string fieldValue list" where
  "buildFilters m props useNew = resolveAll (filters m) props useNew"

definition monthlyCost :: "real \<Rightarrow> mapping \<Rightarrow> real" where
  "monthlyCost unitPrice m =
     (if truthyNum (monthlyHours m) then unitPrice * the (monthlyHours m)
      else if truthyNum (monthlyQuantity m) then unitPrice * the (monthlyQuantity m)
      else unitPrice)"

subsection \<open>Formatting helpers\<close>

definition isHex :: "char \<Rightarrow> bool" where
  "isHex c \<longleftrightarrow> c \<in> set ''0123456789abcdefABCDEF''"

definition isLower :: "char \<Rightarrow> bool" where
  "isLower c \<longleftrightarrow> c \<in> set ''abcdefghijklmnopqrstuvwxyz''"

definition isUpper :: "char \<Rightarrow> bool" where
  "isUpper c \<longleftrightarrow> c \<in> set ''ABCDEFGHIJKLMNOPQRSTUVWXYZ''"

fun lastSegment :: "string \<Rightarrow> string \<Rightarrow> string" where
  "lastSegment seg [] = seg"
| "lastSegment seg [c] = seg @ [c]"
| "lastSegment seg (c # d # cs) =
     (if c = CHR '':'' \<and> d = CHR '':'' then lastSegment [] cs
      else lastSegment (seg @ [c]) (d # cs))"

definition shortType :: "string \<Rightarrow> string" where
  "shortType t = lastSegment [] t"

definition stripHash :: "string \<Rightarrow> string" where
  "stripHash s =
     (if 8 \<le> length s \<and> list_all isHex (drop (length s - 8) s)
      then take (length s - 8) s else s)"

fun spaceCamel :: "string \<Rightarrow> string" where
  "spaceCamel (a # b # cs) =
     (if isLower a \<and> isUpper b then a # CHR '' '' # spaceCamel (b # cs)
      else a # spaceCamel (b # cs))"
| "spaceCamel cs = cs"

definition cleanId :: "string \<Rightarrow> string" where
  "cleanId ident = spaceCamel (stripHash ident)"

definition startsWithUnderscore :: "string \<Rightarrow> bool" where
  "startsWithUnderscore t = (case t of [] \<Rightarrow> False | c # _ \<Rightarrow> c = CHR ''_'')"

text \<open>The arrow U+2192 of the detail string, in UTF-8, with the blanks around it.\<close>

definition arrow :: string where
  "arrow = [CHR '' '', CHR 0xE2, CHR 0x86, CHR 0x92, CHR '' '']"

subsection \<open>Main\<close>

text \<open>The loop that builds the detail string of an UPDATE, leaving at the first hit.\<close>

fun detailLoop :: "valueDef fieldValue list \<Rightarrow> propertyChange list \<Rightarrow> string" where
  "detailLoop [] props = []"
| "detailLoop (f # fs) props =
     (if truthyStr (cfProperty (Value f)) then
        (case find (\<lambda>p. Some (prop_name p) = cfProperty (Value f)) props of
           None \<Rightarrow> detailLoop fs props
         | Some prop \<Rightarrow>
             if truthyStr (oldValue prop) \<and> truthyStr (newValue prop)
                \<and> oldValue prop \<noteq> newValue prop
             then the (oldValue prop) @ arrow @ the (newValue prop)
             else detailLoop fs props)
      else detailLoop fs props)"

text \<open>The three branches on the action: the two costs and the state after the lookups.\<close>

definition priceResource ::
  "env \<Rightarrow> mapping \<Rightarrow> resourceChange \<Rightarrow> state \<Rightarrow> (real option \<times> real option) \<times> state" where
  "priceResource e m res s =
     (if res_action res = ''ADD'' then
        (case queryPrice e (serviceCode m) (buildFilters m (properties res) True) s of
           (None, s1) \<Rightarrow> ((None, None), s1)
         | (Some price, s1) \<Rightarrow>
             ((None, Some (monthlyCost (usd price) m)), s1\<lparr>pricedCount := pricedCount s1 + 1\<rparr>))
      else if res_action res = ''REMOVE'' then
        (case queryPrice e (serviceCode m) (buildFilters m (properties res) False) s of
           (None, s1) \<Rightarrow> ((None, None), s1)
         | (Some price, s1) \<Rightarrow>
             ((Some (monthlyCost (usd price) m), None), s1\<lparr>pricedCount := pricedCount s1 + 1\<rparr>))
      else if res_action res = ''UPDATE'' then
        (case queryPrice e (serviceCode m) (buildFilters m (properties res) False) s of
           (oldPrice, s1) \<Rightarrow>
             (case queryPrice e (serviceCode m) (buildFilters m (properties res) True) s1 of
                (newPrice, s2) \<Rightarrow>
                  ((map_option (\<lambda>p. monthlyCost (usd p) m) oldPrice,
                    map_option (\<lambda>p. monthlyCost (usd p) m) newPrice),
                   (if oldPrice \<noteq> None \<or> newPrice \<noteq> None
                    then s2\<lparr>pricedCount := pricedCount s2 + 1\<rparr> else s2))))
      else ((None, None), s))"

definition deltaOf :: "real option \<Rightarrow> real option \<Rightarrow> real option" where
  "deltaOf beforeCost afterCost =
     (if beforeCost \<noteq> None \<or> afterCost \<noteq> None
      then Some (orZero afterCost - orZero beforeCost) else None)"

text \<open>
  The message of the TypeError that \<^verbatim>\<open>for (const filter of mapping.filters)\<close> throws in
  \<^verbatim>\<open>buildFilters\<close> when the mapping has no \<^verbatim>\<open>filters\<close>.
\<close>

definition notIterable :: string where
  "notIterable = ''mapping.filters is not iterable''"

text \<open>
  The body of the inner loop. An inherited member passes the test \<^verbatim>\<open>if (!mapping)\<close>; each
  of the three pricing branches then calls \<^verbatim>\<open>buildFilters\<close> on it before any lookup, which
  throws; with any other action no branch runs and the row has no costs.
\<close>

definition processResource ::
  "env \<Rightarrow> resourceMap \<Rightarrow> string \<Rightarrow> resourceChange \<Rightarrow> state \<Rightarrow> state" where
  "processResource e rm stack res s =
     (if startsWithUnderscore (res_type res) \<or> res_type res = ''Unknown'' then s
      else if res_type res \<in> set (free rm) then s\<lparr>freeCount := freeCount s + 1\<rparr>
      else
        (case memberOf rm (res_type res) of
           Undefined \<Rightarrow>
             s\<lparr>rows := rows s @
                  [\<lparr>row_stack = stack, row_id = cleanId (logicalId res),
                    row_type = shortType (res_type res), detail = [],
                    row_action = res_action res,
                    before = None, after = None, delta = None\<rparr>]\<rparr>
         | Inherited \<Rightarrow>
             if res_action res = ''ADD'' \<or> res_action res = ''REMOVE''
                \<or> res_action res = ''UPDATE''
             then s\<lparr>thrown := Some notIterable\<rparr>
             else
               s\<lparr>rows := rows s @
                    [\<lparr>row_stack = stack, row_id = cleanId (logicalId res),
                      row_type = shortType (res_type res), detail = [],
                      row_action = res_action res,
                      before = None, after = None, delta = None\<rparr>]\<rparr>
         | Own m \<Rightarrow>
             (case priceResource e m res s of
                ((beforeCost, afterCost), s1) \<Rightarrow>
                  (let d = deltaOf beforeCost afterCost;
                       s2 = (case d of None \<Rightarrow> s1
                             | Some x \<Rightarrow> s1\<lparr>totalDelta := totalDelta s1 + x\<rparr>);
                       det = (if res_action res = ''UPDATE''
                              then detailLoop (filters m) (properties res) else [])
                   in s2\<lparr>rows := rows s2 @
                          [\<lparr>row_stack = stack, row_id = cleanId (logicalId res),
                            row_type = shortType (res_type res), detail = det,
                            row_action = res_action res,
                            before = beforeCost, after = afterCost, delta = d\<rparr>]\<rparr>))))"

definition processStack :: "env \<Rightarrow> resourceMap \<Rightarrow> stackDiff \<Rightarrow> state \<Rightarrow> state" where
  "processStack e rm st s =
     (if \<not> hasDiff st then s
      else forEach (processResource e rm (stackName st)) (resources st) s)"

definition main :: "env \<Rightarrow> changeReport \<Rightarrow> resourceMap \<Rightarrow> state" where
  "main e diffData rm = forEach (processStack e rm) (stacks diffData) initial"

text \<open>The count the markdown reports as resources without pricing data.\<close>

definition unmapped :: "costRow list \<Rightarrow> nat" where
  "unmapped rs = length (filter (\<lambda>r. delta r = None) rs)"

text \<open>
  The script as a whole: either input that \<^verbatim>\<open>JSON.parse\<close> rejects ends the run with
  \<^verbatim>\<open>{markdown: '', error: message}\<close>, and so does an exception that leaves \<^verbatim>\<open>main\<close>;
  otherwise the markdown is rendered from the final state.
\<close>

datatype outcome = Failed string | Estimated state

definition estimate ::
  "env \<Rightarrow> string + changeReport \<Rightarrow> string + resourceMap \<Rightarrow> outcome" where
  "estimate e diffJson mapJson =
     (case diffJson of
        Inl msg \<Rightarrow> Failed msg
      | Inr diffData \<Rightarrow>
          (case mapJson of
             Inl msg \<Rightarrow> Failed msg
           | Inr rm \<Rightarrow>
               (case thrown (main e diffData rm) of
                  Some msg \<Rightarrow> Failed msg
                | None \<Rightarrow> Estimated (main e diffData rm))))"

subsection \<open>Notions the properties are stated with\<close>

text \<open>The key under which a request that was sent is cached: its filters without the location.\<close>

definition requestKey :: "env \<Rightarrow> request \<Rightarrow> cacheKey" where
  "requestKey e rq =
     cacheKey e (rq_ServiceCode rq)
       (map (\<lambda>t. \<lparr>Field = tm_Field t, Value = tm_Value t\<rparr>) (butlast (rq_Filters rq)))"

text \<open>A resource change the first guard of the loop passes over.\<close>

definition skipped :: "resourceChange \<Rightarrow> bool" where
  "skipped res \<longleftrightarrow> startsWithUnderscore (res_type res) \<or> res_type res = ''Unknown''"

text \<open>The old or the new value of a property change, by pricing direction.\<close>

definition directional :: "bool \<Rightarrow> propertyChange \<Rightarrow> string option" where
  "directional useNew prop = (if useNew then newValue prop else oldValue prop)"

text \<open>A value that is present, not empty and not the text of null or undefined.\<close>

definition usable :: "string option \<Rightarrow> bool" where
  "usable v \<longleftrightarrow> truthyStr v \<and> v \<noteq> Some ''null'' \<and> v \<noteq> Some ''undefined''"

text \<open>The filter a default gives: one entry when the default is truthy, none otherwise.\<close>

definition fromDefault :: "valueDef fieldValue \<Rightarrow> string fieldValue list" where
  "fromDefault f =
     (if truthyStr (vdefault (Value f))
      then [\<lparr>Field = Field f, Value = the (vdefault (Value f))\<rparr>] else [])"

text \<open>The multiplier of a rule: hours, else quantity, else none (a factor of one).\<close>

definition multiplier :: "mapping \<Rightarrow> real" where
  "multiplier m =
     (if truthyNum (monthlyHours m) then the (monthlyHours m)
      else if truthyNum (monthlyQuantity m) then the (monthlyQuantity m)
      else 1)"

text \<open>The delta as the specification words it, with \<^verbatim>\<open>??\<close> for the missing side.\<close>

definition delta_spec :: "real option \<Rightarrow> real option \<Rightarrow> real option" where
  "delta_spec b a =
     (if b = None \<and> a = None then None
      else Some ((case a of None \<Rightarrow> 0 | Some x \<Rightarrow> x) - (case b of None \<Rightarrow> 0 | Some x \<Rightarrow> x)))"

text \<open>
  The change detail as the specification words it: the first filter that reads a
  property whose change has an old and a new value that differ.
\<close>

definition changed :: "propertyChange list \<Rightarrow> valueDef fieldValue \<Rightarrow> bool" where
  "changed props f \<longleftrightarrow>
     truthyStr (cfProperty (Value f)) \<and>
     (case find (\<lambda>p. Some (prop_name p) = cfProperty (Value f)) props of
        None \<Rightarrow> False
      | Some prop \<Rightarrow>
          truthyStr (oldValue prop) \<and> truthyStr (newValue prop) \<and> oldValue prop \<noteq> newValue prop)"

definition detail_spec :: "valueDef fieldValue list \<Rightarrow> propertyChange list \<Rightarrow> string" where
  "detail_spec fs props =
     (case find (changed props) fs of
        None \<Rightarrow> []
      | Some f \<Rightarrow>
          (case find (\<lambda>p. Some (prop_name p) = cfProperty (Value f)) props of
             None \<Rightarrow> []
           | Some prop \<Rightarrow> the (oldValue prop) @ arrow @ the (newValue prop)))"

text \<open>The row of a resource for which nothing was priced.\<close>

definition emptyRow :: "string \<Rightarrow> resourceChange \<Rightarrow> costRow" where
  "emptyRow stack res =
     \<lparr>row_stack = stack, row_id = cleanId (logicalId res),
      row_type = shortType (res_type res), detail = [],
      row_action = res_action res, before = None, after = None, delta = None\<rparr>"

text \<open>
  The resources of a report that a run reaches when nothing is thrown, those of the stacks with
  a difference; among them the ones counted as free, and the ones that pass both guards.
\<close>

definition visited :: "changeReport \<Rightarrow> resourceChange list" where
  "visited diffData = concat (map resources (filter hasDiff (stacks diffData)))"

definition isFree :: "resourceMap \<Rightarrow> resourceChange \<Rightarrow> bool" where
  "isFree rm res \<longleftrightarrow> \<not> skipped res \<and> res_type res \<in> set (free rm)"

definition getsRow :: "resourceMap \<Rightarrow> resourceChange \<Rightarrow> bool" where
  "getsRow rm res \<longleftrightarrow> \<not> skipped res \<and> res_type res \<notin> set (free rm)"

text \<open>A resource change on which the body of the loop throws.\<close>

definition throwsOn :: "resourceMap \<Rightarrow> resourceChange \<Rightarrow> bool" where
  "throwsOn rm res \<longleftrightarrow>
     getsRow rm res \<and> memberOf rm (res_type res) = Inherited
     \<and> (res_action res = ''ADD'' \<or> res_action res = ''REMOVE'' \<or> res_action res = ''UPDATE'')"

text \<open>The pricing directions a resource change asks for, and the keys of its lookups.\<close>

definition directions :: "resourceChange \<Rightarrow> bool list" where
  "directions res =
     (if res_action res = ''ADD'' then [True]
      else if res_action res = ''REMOVE'' then [False]
      else if res_action res = ''UPDATE'' then [False, True]
      else [])"

definition requestedKeys :: "env \<Rightarrow> mapping \<Rightarrow> resourceChange \<Rightarrow> cacheKey list" where
  "requestedKeys e m res =
     map (\<lambda>useNew. cacheKey e (serviceCode m) (buildFilters m (properties res) useNew))
       (directions res)"

text \<open>
  The cache and the log of requests agree: the keys of the requests sent are the keys
  cached, and no two requests sent have the same key.
\<close>

definition oncePerKey :: "env \<Rightarrow> state \<Rightarrow> bool" where
  "oncePerKey e s \<longleftrightarrow>
     distinct (map (requestKey e) (sent s))
     \<and> set (map (requestKey e) (sent s)) = dom (priceCache s)"

subsection \<open>A sample environment\<close>

fun codeUnitCompare :: "string \<Rightarrow> string \<Rightarrow> int" where
  "codeUnitCompare [] [] = 0"
| "codeUnitCompare [] (y # ys) = - 1"
| "codeUnitCompare (x # xs) [] = 1"
| "codeUnitCompare (x # xs) (y # ys) =
     (if (of_char x :: nat) < of_char y then - 1
      else if (of_char y :: nat) < of_char x then 1
      else codeUnitCompare xs ys)"

definition priced :: "string \<Rightarrow> response" where
  "priced txt =
     Resp [Product \<lparr>terms_OnDemand = Some [(''o'', \<lparr>priceDimensions = Some [(''d'',
       \<lparr>pricePerUnit_USD = Some txt, dim_unit = Some ''Hrs'', dim_description = None\<rparr>)]\<rparr>)]\<rparr>]"

text \<open>
  A service that is down for service code \<open>D\<close>, lists a product at price zero for \<open>Z\<close>,
  prices \<open>C\<close> by the size filter, and knows no other product.
\<close>

definition sample_env :: env where
  "sample_env =
     \<lparr>locationName = ''EU'',
      localeCompare = codeUnitCompare,
      parseFloat = (\<lambda>t. if t = ''0'' then Some 0
                         else if t = ''0.05'' then Some (1 / 20)
                         else if t = ''0.2'' then Some (1 / 5)
                         else None),
      send = (\<lambda>log rq.
         if rq_ServiceCode rq = ''D'' then Threw ''timeout''
         else if rq_ServiceCode rq = ''Z'' then priced ''0''
         else if rq_ServiceCode rq = ''C'' then
           (if \<lparr>tm_Type = ''TERM_MATCH'', tm_Field = ''size'', tm_Value = ''large''\<rparr>
                 \<in> set (rq_Filters rq)
            then priced ''0.2'' else priced ''0.05'')
         else Resp [])\<rparr>"

definition sample_rule :: "string \<Rightarrow> mapping" where
  "sample_rule sc =
     \<lparr>serviceCode = sc, unitLabel = ''Hrs'', monthlyHours = Some 730, monthlyQuantity = None,
      filters = [\<lparr>Field = ''size'', Value = \<lparr>vdefault = None, cfProperty = Some ''Size''\<rparr>\<rparr>,
                 \<lparr>Field = ''os'', Value = \<lparr>vdefault = Some ''Linux'', cfProperty = None\<rparr>\<rparr>],
      rule_note = None\<rparr>"

definition sample_map :: resourceMap where
  "sample_map =
     \<lparr>free = [''Role'', ''Unknown''],
      rules = [''VM'' \<mapsto> sample_rule ''C'', ''Db'' \<mapsto> sample_rule ''D'']\<rparr>"

definition sample_resource :: "string \<Rightarrow> string \<Rightarrow> propertyChange list \<Rightarrow> resourceChange" where
  "sample_resource t a ps = \<lparr>logicalId = ''R'', res_type = t, res_action = a, properties = ps\<rparr>"

definition resize :: "propertyChange list" where
  "resize = [\<lparr>prop_name = ''Size'', impact = ''WILL_REPLACE'',
              oldValue = Some ''small'', newValue = Some ''large''\<rparr>]"

definition sample_report :: "resourceChange list \<Rightarrow> changeReport" where
  "sample_report rs = \<lparr>stacks = [\<lparr>stackName = ''Net'', hasDiff = True, resources = rs\<rparr>]\<rparr>"

section \<open>Properties\<close>

subsection \<open>Evaluating the definitions\<close>

lemma deltaOf_simps:
  "deltaOf None None = None"
  "deltaOf (Some x) a = Some (orZero a - orZero (Some x))"
  "deltaOf b (Some y) = Some (orZero (Some y) - orZero b)"
  by (simp_all add: deltaOf_def)

lemmas run_defs =
  main_def processStack_def processResource_def priceResource_def queryPrice_def cacheKey_def
  getProducts_def allFilters_def quoteOf_def priceText_def buildFilters_def resolveFilterValue_def
  truthyStr_def truthyNum_def orZero_def orNull_def monthlyCost_def deltaOf_simps initial_def
  startsWithUnderscore_def cleanId_def stripHash_def shortType_def unmapped_def Let_def
  memberOf_def inheritedNames_def

lemmas sample_defs =
  sample_env_def sample_map_def sample_rule_def sample_resource_def sample_report_def
  resize_def priced_def

subsection \<open>Invariants of a run\<close>

lemma forEach_invariant:
  assumes "P s" and "\<And>x t. P t \<Longrightarrow> P (f x t)"
  shows "P (forEach f xs s)"
  using assms(1)
proof (induction xs arbitrary: s)
  case Nil
  then show ?case by simp
next
  case (Cons x xs)
  have "P (f x s)" using Cons.prems by (rule assms(2))
  then show ?case using Cons.IH [of "f x s"] by (simp add: Let_def)
qed

lemma forEach_established:
  assumes "thrown (forEach f xs s) = None" and "x \<in> set xs"
    and "\<And>t. thrown (f x t) = None \<Longrightarrow> Q (f x t)" and "\<And>t y. Q t \<Longrightarrow> Q (f y t)"
  shows "Q (forEach f xs s)"
  using assms(1,2)
proof (induction xs arbitrary: s)
  case Nil
  then show ?case by simp
next
  case (Cons y ys)
  have n: "thrown (f y s) = None"
    using Cons.prems(1) by (auto simp: Let_def split: if_splits)
  then have r: "forEach f (y # ys) s = forEach f ys (f y s)" by (simp add: Let_def)
  show ?case
  proof (cases "x = y")
    case True
    have "Q (f y s)" using True n assms(3) by simp
    then have "Q (forEach f ys (f y s))" by (rule forEach_invariant) (rule assms(4))
    then show ?thesis by (simp only: r)
  next
    case False
    then have "x \<in> set ys" using Cons.prems(2) by simp
    then show ?thesis using Cons.IH [of "f y s"] Cons.prems(1) by (simp only: r)
  qed
qed

lemma forEach_count:
  fixes n :: "state \<Rightarrow> nat"
  assumes "thrown (forEach f xs s) = None"
    and "\<And>x t. thrown (f x t) = None \<Longrightarrow> n (f x t) = n t + w x"
  shows "n (forEach f xs s) = n s + sum_list (map w xs)"
  using assms(1)
proof (induction xs arbitrary: s)
  case Nil
  then show ?case by simp
next
  case (Cons y ys)
  have t: "thrown (f y s) = None"
    using Cons.prems by (auto simp: Let_def split: if_splits)
  then have r: "forEach f (y # ys) s = forEach f ys (f y s)" by (simp add: Let_def)
  have "thrown (forEach f ys (f y s)) = None" using Cons.prems by (simp only: r)
  then have "n (forEach f ys (f y s)) = n (f y s) + sum_list (map w ys)" by (rule Cons.IH)
  then have "n (forEach f (y # ys) s) = n (f y s) + sum_list (map w ys)" by (simp only: r)
  then show ?case using assms(2) [OF t] by simp
qed

lemma main_invariant:
  assumes "P initial" and "\<And>stack res s. P s \<Longrightarrow> P (processResource e rm stack res s)"
  shows "P (main e diffData rm)"
  unfolding main_def
proof (rule forEach_invariant [where P = P])
  show "P initial" by (rule assms(1))
next
  fix st :: stackDiff and t assume q: "P t"
  have "P (forEach (processResource e rm (stackName st)) (resources st) t)"
    using q by (rule forEach_invariant) (rule assms(2))
  then show "P (processStack e rm st t)"
    using q by (simp add: processStack_def)
qed



lemma main_established:
  assumes "thrown (main e diffData rm) = None"
    and "st \<in> set (stacks diffData)" and "hasDiff st" and "res \<in> set (resources st)"
    and est: "\<And>t. thrown (processResource e rm (stackName st) res t) = None
                \<Longrightarrow> Q (processResource e rm (stackName st) res t)"
    and keep: "\<And>t stack r. Q t \<Longrightarrow> Q (processResource e rm stack r t)"
  shows "Q (main e diffData rm)"
  unfolding main_def
proof (rule forEach_established [where x = st])
  show "thrown (forEach (processStack e rm) (stacks diffData) initial) = None"
    using assms(1) by (simp add: main_def)
next
  show "st \<in> set (stacks diffData)" by (rule assms(2))
next
  fix t
  assume "thrown (processStack e rm st t) = None"
  then have n: "thrown (forEach (processResource e rm (stackName st)) (resources st) t) = None"
    using assms(3) by (simp add: processStack_def)
  have "Q (forEach (processResource e rm (stackName st)) (resources st) t)"
    using n assms(4)
  proof (rule forEach_established)
    fix u assume "thrown (processResource e rm (stackName st) res u) = None"
    then show "Q (processResource e rm (stackName st) res u)" by (rule est)
  next
    fix u y assume "Q u"
    then show "Q (processResource e rm (stackName st) y u)" by (rule keep)
  qed
  then show "Q (processStack e rm st t)" using assms(3) by (simp add: processStack_def)
next
  fix t and y :: stackDiff assume q: "Q t"
  have "Q (forEach (processResource e rm (stackName y)) (resources y) t)"
    using q by (rule forEach_invariant) (rule keep)
  then show "Q (processStack e rm y t)"
    using q by (simp add: processStack_def)
qed

subsection \<open>What a lookup and a resource change do to the state\<close>

lemma queryPrice_hit:
  "priceCache s (cacheKey e sc fs) = Some c \<Longrightarrow> queryPrice e sc fs s = (c, s)"
  by (simp add: queryPrice_def)

lemma queryPrice_miss:
  "priceCache s (cacheKey e sc fs) = None \<Longrightarrow>
   queryPrice e sc fs s =
     (quoteOf e (send e (sent s) (getProducts e sc fs)),
      s\<lparr>priceCache := (priceCache s)(cacheKey e sc fs \<mapsto> quoteOf e (send e (sent s) (getProducts e sc fs))),
        sent := sent s @ [getProducts e sc fs]\<rparr>)"
  by (simp add: queryPrice_def Let_def)

lemma queryPrice_frame:
  assumes "queryPrice e sc fs s = (r, s')"
  shows "rows s' = rows s \<and> totalDelta s' = totalDelta s \<and> pricedCount s' = pricedCount s
         \<and> freeCount s' = freeCount s \<and> thrown s' = thrown s"
  using assms by (auto simp: queryPrice_def Let_def split: option.splits)

lemma monthlyCost_multiplier: "monthlyCost u m = u * multiplier m"
  by (simp add: monthlyCost_def multiplier_def)

lemma priceResource_frame:
  assumes "priceResource e m res s = ((b, a), s')"
  shows "rows s' = rows s \<and> totalDelta s' = totalDelta s \<and> freeCount s' = freeCount s
         \<and> thrown s' = thrown s
         \<and> pricedCount s' = pricedCount s + (if b \<noteq> None \<or> a \<noteq> None then 1 else 0)"
proof -
  have q: "\<And>u t r t'. queryPrice e (serviceCode m) (buildFilters m (properties res) u) t = (r, t') \<Longrightarrow>
    rows t' = rows t \<and> totalDelta t' = totalDelta t \<and> pricedCount t' = pricedCount t
         \<and> freeCount t' = freeCount t \<and> thrown t' = thrown t"
    by (rule queryPrice_frame)
  show ?thesis
    using assms unfolding priceResource_def
    by (auto split: if_splits prod.splits option.splits dest!: q)
qed

lemma processResource_mapped:
  assumes "\<not> skipped res" and "res_type res \<notin> set (free rm)"
    and "rules rm (res_type res) = Some m"
    and "priceResource e m res s = ((b, a), s1)"
  shows "processResource e rm stack res s =
     (case deltaOf b a of None \<Rightarrow> s1 | Some x \<Rightarrow> s1\<lparr>totalDelta := totalDelta s1 + x\<rparr>)
       \<lparr>rows := rows s @
          [\<lparr>row_stack = stack, row_id = cleanId (logicalId res),
            row_type = shortType (res_type res),
            detail = (if res_action res = ''UPDATE''
                      then detailLoop (filters m) (properties res) else []),
            row_action = res_action res, before = b, after = a, delta = deltaOf b a\<rparr>]\<rparr>"
proof -
  have r: "rows s1 = rows s" using priceResource_frame [OF assms(4)] by simp
  show ?thesis
    using assms r
    by (simp add: processResource_def memberOf_def skipped_def Let_def split: option.splits)
qed

lemma processResource_unmapped:
  assumes "\<not> skipped res" and "res_type res \<notin> set (free rm)"
    and "memberOf rm (res_type res) = Undefined"
  shows "processResource e rm stack res s = s\<lparr>rows := rows s @ [emptyRow stack res]\<rparr>"
  using assms by (simp add: processResource_def skipped_def emptyRow_def)

lemma processResource_inherited:
  assumes "\<not> skipped res" and "res_type res \<notin> set (free rm)"
    and "memberOf rm (res_type res) = Inherited"
  shows "processResource e rm stack res s =
     (if res_action res = ''ADD'' \<or> res_action res = ''REMOVE'' \<or> res_action res = ''UPDATE''
      then s\<lparr>thrown := Some notIterable\<rparr>
      else s\<lparr>rows := rows s @ [emptyRow stack res]\<rparr>)"
  using assms by (simp add: processResource_def skipped_def emptyRow_def)

lemma unpriced_row:
  assumes "\<not> skipped res" and "res_type res \<notin> set (free rm)"
    and "rules rm (res_type res) = Some m"
    and "priceResource e m res s = ((None, None), s1)"
  shows "processResource e rm stack res s =
     s1\<lparr>rows := rows s @
          [(emptyRow stack res)\<lparr>detail := (if res_action res = ''UPDATE''
                      then detailLoop (filters m) (properties res) else [])\<rparr>]\<rparr>"
  using processResource_mapped [OF assms, of stack]
  by (simp add: deltaOf_def emptyRow_def)

lemma processResource_cases:
  "(skipped res \<and> processResource e rm stack res s = s)
   \<or> (\<not> skipped res \<and> res_type res \<in> set (free rm)
        \<and> processResource e rm stack res s = s\<lparr>freeCount := freeCount s + 1\<rparr>)
   \<or> (getsRow rm res \<and> rules rm (res_type res) = None \<and> \<not> throwsOn rm res
        \<and> processResource e rm stack res s = s\<lparr>rows := rows s @ [emptyRow stack res]\<rparr>)
   \<or> (throwsOn rm res \<and> processResource e rm stack res s = s\<lparr>thrown := Some notIterable\<rparr>)
   \<or> (\<exists>m b a s1. getsRow rm res \<and> rules rm (res_type res) = Some m
        \<and> priceResource e m res s = ((b, a), s1)
        \<and> processResource e rm stack res s =
            (case deltaOf b a of None \<Rightarrow> s1 | Some x \<Rightarrow> s1\<lparr>totalDelta := totalDelta s1 + x\<rparr>)
              \<lparr>rows := rows s @
                 [\<lparr>row_stack = stack, row_id = cleanId (logicalId res),
                   row_type = shortType (res_type res),
                   detail = (if res_action res = ''UPDATE''
                             then detailLoop (filters m) (properties res) else []),
                   row_action = res_action res, before = b, after = a, delta = deltaOf b a\<rparr>]\<rparr>)"
proof (cases "skipped res")
  case True
  then show ?thesis by (simp add: processResource_def skipped_def)
next
  case ns: False
  show ?thesis
  proof (cases "res_type res \<in> set (free rm)")
    case True
    then show ?thesis using ns by (simp add: processResource_def skipped_def)
  next
    case nf: False
    show ?thesis
    proof (cases "memberOf rm (res_type res)")
      case Undefined
      then have "rules rm (res_type res) = None"
        by (simp add: memberOf_def split: option.splits if_splits)
      then show ?thesis
        using ns nf Undefined processResource_unmapped [OF ns nf Undefined]
        by (simp add: getsRow_def throwsOn_def)
    next
      case Inherited
      then have "rules rm (res_type res) = None"
        by (simp add: memberOf_def split: option.splits if_splits)
      then show ?thesis
        using ns nf Inherited processResource_inherited [OF ns nf Inherited, of e stack s]
        by (simp add: getsRow_def throwsOn_def)
    next
      case (Own m)
      then have r: "rules rm (res_type res) = Some m"
        by (simp add: memberOf_def split: option.splits if_splits)
      obtain b a s1 where p: "priceResource e m res s = ((b, a), s1)"
        by (metis surj_pair)
      show ?thesis
        using ns nf r p processResource_mapped [OF ns nf r p, of stack]
        by (simp add: getsRow_def)
    qed
  qed
qed

lemma deltaOf_spec: "deltaOf b a = delta_spec b a"
  by (cases b; cases a) (auto simp: deltaOf_def delta_spec_def orZero_def truthyNum_def)

subsection \<open>Counting over a run\<close>

lemma length_filter_sum: "length (filter P xs) = sum_list (map (\<lambda>x. if P x then 1 else 0) xs)"
  by (induction xs) auto

lemma visited_sum:
  "sum_list (map (\<lambda>st. if hasDiff st then length (filter P (resources st)) else 0) sts)
     = length (filter P (concat (map resources (filter hasDiff sts))))"
  by (induction sts) auto

lemma count_main:
  fixes n :: "state \<Rightarrow> nat"
  assumes fin: "thrown (main e diffData rm) = None"
    and step: "\<And>stack res s. thrown (processResource e rm stack res s) = None
                 \<Longrightarrow> n (processResource e rm stack res s) = n s + (if P res then 1 else 0)"
  shows "n (main e diffData rm) = n initial + length (filter P (visited diffData))"
proof -
  have inner: "n (processStack e rm st t)
      = n t + (if hasDiff st then length (filter P (resources st)) else 0)"
    if t: "thrown (processStack e rm st t) = None" for st t
  proof (cases "hasDiff st")
    case False
    then show ?thesis by (simp add: processStack_def)
  next
    case True
    then have u: "thrown (forEach (processResource e rm (stackName st)) (resources st) t) = None"
      using t by (simp add: processStack_def)
    have "n (forEach (processResource e rm (stackName st)) (resources st) t)
        = n t + sum_list (map (\<lambda>res. if P res then 1 else 0) (resources st))"
      using u by (rule forEach_count) (rule step)
    then show ?thesis using True by (simp add: processStack_def length_filter_sum)
  qed
  have d: "thrown (forEach (processStack e rm) (stacks diffData) initial) = None"
    using fin by (simp add: main_def)
  have "n (forEach (processStack e rm) (stacks diffData) initial)
      = n initial
        + sum_list (map (\<lambda>st. if hasDiff st then length (filter P (resources st)) else 0)
            (stacks diffData))"
    using d by (rule forEach_count) (rule inner)
  then show ?thesis by (simp add: main_def visited_def visited_sum)
qed

subsection \<open>The sample run, evaluated\<close>

lemma sample_down:
  "priceResource sample_env (sample_rule ''D'') (sample_resource ''Db'' ''ADD'' []) initial
   = ((None, None), initial\<lparr>priceCache := [cacheKey sample_env ''D'' [\<lparr>Field = ''os'', Value = ''Linux''\<rparr>] \<mapsto> None],
        sent := [getProducts sample_env ''D'' [\<lparr>Field = ''os'', Value = ''Linux''\<rparr>]]\<rparr>)"
  by (simp add: priceResource_def queryPrice_def buildFilters_def resolveFilterValue_def
      truthyStr_def orNull_def quoteOf_def sample_defs initial_def getProducts_def Let_def cacheKey_def)

lemma sample_add:
  "queryPrice sample_env (serviceCode (sample_rule ''C''))
      (buildFilters (sample_rule ''C'') (properties (sample_resource ''VM'' ''ADD'' []))
         (res_action (sample_resource ''VM'' ''ADD'' []) = ''ADD'')) initial
   = (Some \<lparr>usd = 1 / 20, unit = ''Hrs'', description = []\<rparr>,
      initial\<lparr>priceCache := [cacheKey sample_env ''C'' [\<lparr>Field = ''os'', Value = ''Linux''\<rparr>]
                  \<mapsto> Some \<lparr>usd = 1 / 20, unit = ''Hrs'', description = []\<rparr>],
        sent := [getProducts sample_env ''C'' [\<lparr>Field = ''os'', Value = ''Linux''\<rparr>]]\<rparr>)"
  by (simp add: queryPrice_def buildFilters_def resolveFilterValue_def priceText_def
      truthyStr_def orNull_def quoteOf_def sample_defs initial_def getProducts_def allFilters_def
      Let_def cacheKey_def)

lemma sample_update:
  "priceResource sample_env (sample_rule ''C'') (sample_resource ''VM'' ''UPDATE'' resize) initial
   = ((Some (73 / 2), Some 146),
      initial\<lparr>pricedCount := 1,
        priceCache := [cacheKey sample_env ''C'' [\<lparr>Field = ''size'', Value = ''small''\<rparr>, \<lparr>Field = ''os'', Value = ''Linux''\<rparr>]
                  \<mapsto> Some \<lparr>usd = 1 / 20, unit = ''Hrs'', description = []\<rparr>,
                 cacheKey sample_env ''C'' [\<lparr>Field = ''size'', Value = ''large''\<rparr>, \<lparr>Field = ''os'', Value = ''Linux''\<rparr>]
                  \<mapsto> Some \<lparr>usd = 1 / 5, unit = ''Hrs'', description = []\<rparr>],
        sent := [getProducts sample_env ''C'' [\<lparr>Field = ''size'', Value = ''small''\<rparr>, \<lparr>Field = ''os'', Value = ''Linux''\<rparr>],
                 getProducts sample_env ''C'' [\<lparr>Field = ''size'', Value = ''large''\<rparr>, \<lparr>Field = ''os'', Value = ''Linux''\<rparr>]]\<rparr>)"
  by (simp add: priceResource_def queryPrice_def buildFilters_def resolveFilterValue_def priceText_def
      truthyStr_def truthyNum_def orNull_def quoteOf_def sample_defs initial_def getProducts_def
      allFilters_def Let_def cacheKey_def monthlyCost_def)

lemma sample_twice:
  "sent (main sample_env
      (sample_report [sample_resource ''VM'' ''ADD'' [], sample_resource ''VM'' ''ADD'' []]) sample_map)
     = [getProducts sample_env ''C'' [\<lparr>Field = ''os'', Value = ''Linux''\<rparr>]]
   \<and> map after (rows (main sample_env
      (sample_report [sample_resource ''VM'' ''ADD'' [], sample_resource ''VM'' ''ADD'' []]) sample_map))
     = [Some (73 / 2), Some (73 / 2)]
   \<and> thrown (main sample_env
      (sample_report [sample_resource ''VM'' ''ADD'' [], sample_resource ''VM'' ''ADD'' []]) sample_map)
     = None"
  by (simp add: run_defs sample_defs)

subsection \<open>The delta of a row and the total\<close>

lemma delta_invariant_step:
  assumes "map delta (rows s) = map (\<lambda>r. delta_spec (before r) (after r)) (rows s)"
    and "totalDelta s = sum_list (List.map_filter delta (rows s))"
  shows "map delta (rows (processResource e rm stack res s))
           = map (\<lambda>r. delta_spec (before r) (after r)) (rows (processResource e rm stack res s))
         \<and> totalDelta (processResource e rm stack res s)
           = sum_list (List.map_filter delta (rows (processResource e rm stack res s)))"
  using processResource_cases [of res e rm stack s]
proof (elim disjE exE conjE)
  fix m b a s1
  assume g: "getsRow rm res" "rules rm (res_type res) = Some m"
    and p: "priceResource e m res s = ((b, a), s1)"
    and r: "processResource e rm stack res s =
            (case deltaOf b a of None \<Rightarrow> s1 | Some x \<Rightarrow> s1\<lparr>totalDelta := totalDelta s1 + x\<rparr>)
              \<lparr>rows := rows s @
                 [\<lparr>row_stack = stack, row_id = cleanId (logicalId res),
                   row_type = shortType (res_type res),
                   detail = (if res_action res = ''UPDATE''
                             then detailLoop (filters m) (properties res) else []),
                   row_action = res_action res, before = b, after = a, delta = deltaOf b a\<rparr>]\<rparr>"
  have t: "totalDelta s1 = totalDelta s" using priceResource_frame [OF p] by simp
  show ?thesis
    using assms t by (cases "deltaOf b a") (simp_all add: r deltaOf_spec map_filter_def)
qed (use assms in \<open>simp_all add: map_filter_def emptyRow_def delta_spec_def\<close>)

text \<open>
  C1. In every row of a run the delta is the after-cost, or zero when there is none, minus
  the before-cost, or zero when there is none, if at least one of the two was priced, and
  null if neither was; the total of the run is the sum of the deltas that are not null,
  over all rows. For a resource change that has a rule, the row added carries the two
  costs the lookups gave, this delta, and the total grows by it when it is not null.
\<close>

theorem delta_and_total:
  "map delta (rows (main e diffData rm))
     = map (\<lambda>r. delta_spec (before r) (after r)) (rows (main e diffData rm))
   \<and> totalDelta (main e diffData rm) = sum_list (List.map_filter delta (rows (main e diffData rm)))
   \<and> (getsRow rm res \<and> rules rm (res_type res) = Some m
        \<and> priceResource e m res s = ((b, a), s1) \<longrightarrow>
        map before (rows (processResource e rm stack res s)) = map before (rows s) @ [b]
        \<and> map after (rows (processResource e rm stack res s)) = map after (rows s) @ [a]
        \<and> map delta (rows (processResource e rm stack res s)) = map delta (rows s) @ [delta_spec b a]
        \<and> totalDelta (processResource e rm stack res s)
            = totalDelta s + (case delta_spec b a of None \<Rightarrow> 0 | Some x \<Rightarrow> x))"
proof -
  have inv: "map delta (rows (main e diffData rm))
     = map (\<lambda>r. delta_spec (before r) (after r)) (rows (main e diffData rm))
   \<and> totalDelta (main e diffData rm) = sum_list (List.map_filter delta (rows (main e diffData rm)))"
  proof (rule main_invariant)
    show "map delta (rows initial) = map (\<lambda>r. delta_spec (before r) (after r)) (rows initial)
      \<and> totalDelta initial = sum_list (List.map_filter delta (rows initial))"
      by (simp add: initial_def map_filter_def)
  next
    fix stack res and s :: state
    assume "map delta (rows s) = map (\<lambda>r. delta_spec (before r) (after r)) (rows s)
      \<and> totalDelta s = sum_list (List.map_filter delta (rows s))"
    then show "map delta (rows (processResource e rm stack res s))
           = map (\<lambda>r. delta_spec (before r) (after r)) (rows (processResource e rm stack res s))
         \<and> totalDelta (processResource e rm stack res s)
           = sum_list (List.map_filter delta (rows (processResource e rm stack res s)))"
      using delta_invariant_step by blast
  qed
  have one: "map before (rows (processResource e rm stack res s)) = map before (rows s) @ [b]
        \<and> map after (rows (processResource e rm stack res s)) = map after (rows s) @ [a]
        \<and> map delta (rows (processResource e rm stack res s)) = map delta (rows s) @ [delta_spec b a]
        \<and> totalDelta (processResource e rm stack res s)
            = totalDelta s + (case delta_spec b a of None \<Rightarrow> 0 | Some x \<Rightarrow> x)"
    if g: "getsRow rm res" and r: "rules rm (res_type res) = Some m"
      and p: "priceResource e m res s = ((b, a), s1)"
  proof -
    have ns: "\<not> skipped res" and nf: "res_type res \<notin> set (free rm)"
      using g by (simp_all add: getsRow_def)
    have t: "totalDelta s1 = totalDelta s" using priceResource_frame [OF p] by simp
    show ?thesis
      using processResource_mapped [OF ns nf r p, of stack] t
      by (cases "delta_spec b a") (simp_all add: deltaOf_spec)
  qed
  show ?thesis using inv one by blast
qed

theorem delta_and_total_witness:
  "getsRow sample_map (sample_resource ''VM'' ''UPDATE'' resize)
   \<and> rules sample_map (res_type (sample_resource ''VM'' ''UPDATE'' resize)) = Some (sample_rule ''C'')
   \<and> fst (priceResource sample_env (sample_rule ''C'') (sample_resource ''VM'' ''UPDATE'' resize) initial)
       = (Some (73 / 2), Some 146)
   \<and> map delta (rows (processResource sample_env sample_map ''Net''
        (sample_resource ''VM'' ''UPDATE'' resize) initial)) = [Some (219 / 2)]
   \<and> totalDelta (processResource sample_env sample_map ''Net''
        (sample_resource ''VM'' ''UPDATE'' resize) initial) = 219 / 2"
proof -
  have h1: "getsRow sample_map (sample_resource ''VM'' ''UPDATE'' resize)"
    by (simp add: getsRow_def skipped_def sample_resource_def sample_map_def startsWithUnderscore_def)
  have h2: "rules sample_map (res_type (sample_resource ''VM'' ''UPDATE'' resize)) = Some (sample_rule ''C'')"
    by (simp add: sample_resource_def sample_map_def)
  have h3: "fst (priceResource sample_env (sample_rule ''C'') (sample_resource ''VM'' ''UPDATE'' resize) initial)
       = (Some (73 / 2), Some 146)"
    by (simp only: sample_update fst_conv)
  have d: "delta_spec (Some (73 / 2)) (Some 146) = Some (219 / 2)"
    by (simp add: delta_spec_def)
  note t = delta_and_total [of sample_env "sample_report []" sample_map
      "sample_resource ''VM'' ''UPDATE'' resize" "sample_rule ''C''" initial
      "Some (73 / 2)" "Some 146" _ "''Net''"]
  have r: "map delta (rows (processResource sample_env sample_map ''Net''
        (sample_resource ''VM'' ''UPDATE'' resize) initial)) = [Some (219 / 2)]
   \<and> totalDelta (processResource sample_env sample_map ''Net''
        (sample_resource ''VM'' ''UPDATE'' resize) initial) = 219 / 2"
    using t h1 h2 sample_update d by (simp add: initial_def)
  show ?thesis using h1 h2 h3 r by blast
qed

subsection \<open>Costs of added and removed resources\<close>

text \<open>
  C2. For an ADD whose lookup returns a quote, the row has no before-cost and the
  after-cost is the unit price times the multiplier; for a REMOVE whose lookup returns a
  quote, the row has no after-cost and the before-cost is the unit price times the
  multiplier. The multiplier is the monthly hours of the rule when set, else its monthly
  quantity when set, else one, so that the cost is the unit price itself. A multiplier is
  set when it is a number other than zero, which is how the script and the generator of
  the map test it.
\<close>

theorem add_remove_costs:
  assumes "\<not> skipped res" and "res_type res \<notin> set (free rm)"
    and "rules rm (res_type res) = Some m"
    and "res_action res = ''ADD'' \<or> res_action res = ''REMOVE''"
    and "queryPrice e (serviceCode m) (buildFilters m (properties res) (res_action res = ''ADD'')) s
           = (Some price, s1)"
  shows "rows (processResource e rm stack res s) =
     rows s @ [(emptyRow stack res)
       \<lparr>before := (if res_action res = ''ADD'' then None else Some (usd price * multiplier m)),
        after := (if res_action res = ''ADD'' then Some (usd price * multiplier m) else None),
        delta := Some (if res_action res = ''ADD'' then usd price * multiplier m
                       else - (usd price * multiplier m))\<rparr>]"
proof (cases "res_action res = ''ADD''")
  case True
  then have p: "priceResource e m res s =
      ((None, Some (monthlyCost (usd price) m)), s1\<lparr>pricedCount := pricedCount s1 + 1\<rparr>)"
    using assms(5) by (simp add: priceResource_def)
  show ?thesis
    using processResource_mapped [OF assms(1-3) p, of stack] True
    by (simp add: deltaOf_def orZero_def truthyNum_def emptyRow_def monthlyCost_multiplier
        split: option.splits)
next
  case False
  then have rem: "res_action res = ''REMOVE''" using assms(4) by simp
  then have p: "priceResource e m res s =
      ((Some (monthlyCost (usd price) m), None), s1\<lparr>pricedCount := pricedCount s1 + 1\<rparr>)"
    using assms(5) by (simp add: priceResource_def)
  show ?thesis
    using processResource_mapped [OF assms(1-3) p, of stack] rem
    by (simp add: deltaOf_def orZero_def truthyNum_def emptyRow_def monthlyCost_multiplier
        split: option.splits)
qed

theorem add_remove_costs_witness:
  "\<not> skipped (sample_resource ''VM'' ''ADD'' [])
   \<and> res_type (sample_resource ''VM'' ''ADD'' []) \<notin> set (free sample_map)
   \<and> rules sample_map (res_type (sample_resource ''VM'' ''ADD'' [])) = Some (sample_rule ''C'')
   \<and> fst (queryPrice sample_env (serviceCode (sample_rule ''C''))
        (buildFilters (sample_rule ''C'') (properties (sample_resource ''VM'' ''ADD'' []))
           (res_action (sample_resource ''VM'' ''ADD'' []) = ''ADD'')) initial)
       = Some \<lparr>usd = 1 / 20, unit = ''Hrs'', description = []\<rparr>
   \<and> rows (processResource sample_env sample_map ''Net'' (sample_resource ''VM'' ''ADD'' []) initial)
       = [\<lparr>row_stack = ''Net'', row_id = ''R'', row_type = ''VM'', detail = [],
           row_action = ''ADD'', before = None, after = Some (73 / 2), delta = Some (73 / 2)\<rparr>]"
proof -
  have h1: "\<not> skipped (sample_resource ''VM'' ''ADD'' [])"
    by (simp add: skipped_def sample_resource_def startsWithUnderscore_def)
  have h2: "res_type (sample_resource ''VM'' ''ADD'' []) \<notin> set (free sample_map)"
    by (simp add: sample_resource_def sample_map_def)
  have h3: "rules sample_map (res_type (sample_resource ''VM'' ''ADD'' [])) = Some (sample_rule ''C'')"
    by (simp add: sample_resource_def sample_map_def)
  have h4: "res_action (sample_resource ''VM'' ''ADD'' []) = ''ADD''
            \<or> res_action (sample_resource ''VM'' ''ADD'' []) = ''REMOVE''"
    by (simp add: sample_resource_def)
  have m: "multiplier (sample_rule ''C'') = 730"
    by (simp add: multiplier_def sample_rule_def truthyNum_def)
  have i: "cleanId ''R'' = ''R''" "shortType ''VM'' = ''VM''"
    by (simp_all add: cleanId_def stripHash_def shortType_def)
  have q: "fst (queryPrice sample_env (serviceCode (sample_rule ''C''))
        (buildFilters (sample_rule ''C'') (properties (sample_resource ''VM'' ''ADD'' []))
           (res_action (sample_resource ''VM'' ''ADD'' []) = ''ADD'')) initial)
       = Some \<lparr>usd = 1 / 20, unit = ''Hrs'', description = []\<rparr>"
    by (simp only: sample_add fst_conv)
  have r: "rows (processResource sample_env sample_map ''Net'' (sample_resource ''VM'' ''ADD'' []) initial)
       = [\<lparr>row_stack = ''Net'', row_id = ''R'', row_type = ''VM'', detail = [],
           row_action = ''ADD'', before = None, after = Some (73 / 2), delta = Some (73 / 2)\<rparr>]"
    using add_remove_costs [OF h1 h2 h3 h4 sample_add, of "''Net''"] m i
    by (simp add: emptyRow_def sample_resource_def initial_def)
  show ?thesis using h1 h2 h3 q r by blast
qed

subsection \<open>Filters that read a property\<close>

lemma resolveFilterValue_fromProperty:
  assumes "cfProperty vd = Some p" and "p \<noteq> []"
  shows "resolveFilterValue vd props useNew =
     (case find (\<lambda>q. prop_name q = p) props of
        None \<Rightarrow> orNull (vdefault vd)
      | Some prop \<Rightarrow> if usable (directional useNew prop) then directional useNew prop
                     else orNull (vdefault vd))"
  using assms
  by (simp add: resolveFilterValue_def truthyStr_def usable_def directional_def Let_def
      split: option.splits)

lemma resolveAll_Cons: "resolveAll (f # fs) props u = resolveAll [f] props u @ resolveAll fs props u"
  by (simp add: Let_def)

lemma resolveAll_concat: "resolveAll fs props u = concat (map (\<lambda>f. resolveAll [f] props u) fs)"
proof (induction fs)
  case Nil
  show ?case by simp
next
  case (Cons f fs)
  show ?case using resolveAll_Cons [of f fs props u] Cons.IH by simp
qed

lemma resolveAll_nonempty: "x \<in> set (resolveAll fs props u) \<Longrightarrow> Value x \<noteq> []"
  by (induction fs) (auto simp: Let_def truthyStr_def split: if_splits option.splits)

text \<open>
  C3. A filter whose value names a property resolves, for the direction asked, to the
  value of the first property change of that name when that value is present, not empty
  and not the text of null or undefined; otherwise to the default of the filter; and when
  the default is missing or empty too, the filter is left out of the query. The filters of
  a rule are resolved one by one in their order, and no resolved filter has an empty value.
\<close>

theorem fromProperty_filter:
  assumes "cfProperty (Value f) = Some p" and "p \<noteq> []"
  shows "resolveAll [f] props useNew =
     (case find (\<lambda>q. prop_name q = p) props of
        None \<Rightarrow> fromDefault f
      | Some prop \<Rightarrow>
          if usable (directional useNew prop)
          then [\<lparr>Field = Field f, Value = the (directional useNew prop)\<rparr>]
          else fromDefault f)
    \<and> buildFilters m props useNew = concat (map (\<lambda>g. resolveAll [g] props useNew) (filters m))
    \<and> (\<forall>x \<in> set (buildFilters m props useNew). Value x \<noteq> [])"
proof -
  have a: "resolveAll [f] props useNew =
     (case find (\<lambda>q. prop_name q = p) props of
        None \<Rightarrow> fromDefault f
      | Some prop \<Rightarrow>
          if usable (directional useNew prop)
          then [\<lparr>Field = Field f, Value = the (directional useNew prop)\<rparr>]
          else fromDefault f)"
    using resolveFilterValue_fromProperty [OF assms, of props useNew]
    by (auto simp: Let_def fromDefault_def orNull_def usable_def truthyStr_def split: option.splits)
  have b: "buildFilters m props useNew = concat (map (\<lambda>g. resolveAll [g] props useNew) (filters m))"
    unfolding buildFilters_def by (rule resolveAll_concat)
  have c: "\<forall>x \<in> set (buildFilters m props useNew). Value x \<noteq> []"
    unfolding buildFilters_def using resolveAll_nonempty by blast
  show ?thesis using a b c by blast
qed

theorem fromProperty_filter_witness:
  "cfProperty (Value \<lparr>Field = ''size'', Value = \<lparr>vdefault = None, cfProperty = Some ''Size''\<rparr>\<rparr>)
     = Some ''Size''
   \<and> ''Size'' \<noteq> []
   \<and> resolveAll [\<lparr>Field = ''size'', Value = \<lparr>vdefault = None, cfProperty = Some ''Size''\<rparr>\<rparr>]
        resize True = [\<lparr>Field = ''size'', Value = ''large''\<rparr>]
   \<and> resolveAll [\<lparr>Field = ''size'', Value = \<lparr>vdefault = None, cfProperty = Some ''Size''\<rparr>\<rparr>]
        [] True = []
   \<and> buildFilters (sample_rule ''C'') resize False
       = [\<lparr>Field = ''size'', Value = ''small''\<rparr>, \<lparr>Field = ''os'', Value = ''Linux''\<rparr>]"
proof -
  have h1: "cfProperty (Value \<lparr>Field = ''size'', Value = \<lparr>vdefault = None, cfProperty = Some ''Size''\<rparr>\<rparr>)
     = Some ''Size''" by simp
  have h2: "''Size'' \<noteq> []" by simp
  have a: "resolveAll [\<lparr>Field = ''size'', Value = \<lparr>vdefault = None, cfProperty = Some ''Size''\<rparr>\<rparr>]
        resize True = [\<lparr>Field = ''size'', Value = ''large''\<rparr>]"
    using fromProperty_filter [OF h1 h2, of resize True "sample_rule ''C''"]
    by (simp add: resize_def usable_def directional_def truthyStr_def)
  have b: "resolveAll [\<lparr>Field = ''size'', Value = \<lparr>vdefault = None, cfProperty = Some ''Size''\<rparr>\<rparr>]
        [] True = []"
    using fromProperty_filter [OF h1 h2, of "[]" True "sample_rule ''C''"]
    by (simp add: fromDefault_def truthyStr_def)
  have c: "buildFilters (sample_rule ''C'') resize False
       = [\<lparr>Field = ''size'', Value = ''small''\<rparr>, \<lparr>Field = ''os'', Value = ''Linux''\<rparr>]"
    by (simp add: buildFilters_def sample_rule_def resize_def resolveFilterValue_def truthyStr_def)
  show ?thesis using a b c by simp
qed

subsection \<open>The pricing cache is asked once for each key\<close>

lemma mset_insertBy: "mset (insertBy cmp x xs) = add_mset x (mset xs)"
  by (induction xs) auto

lemma mset_sortBy: "mset (sortBy cmp xs) = mset xs"
  by (induction xs) (auto simp: mset_insertBy)

lemma set_insertBy: "set (insertBy cmp x xs) = insert x (set xs)"
  by (induction xs) auto

lemma sorted_insertBy:
  assumes total: "\<And>a b. cmp a b \<le> 0 \<or> cmp b a \<le> 0"
    and trans: "\<And>a b c. cmp a b \<le> 0 \<Longrightarrow> cmp b c \<le> 0 \<Longrightarrow> cmp a c \<le> 0"
    and "sorted_wrt (\<lambda>a b. cmp a b \<le> 0) xs"
  shows "sorted_wrt (\<lambda>a b. cmp a b \<le> 0) (insertBy cmp x xs)"
  using assms(3)
proof (induction xs)
  case Nil
  show ?case by simp
next
  case (Cons y ys)
  show ?case
  proof (cases "cmp x y \<le> 0")
    case True
    then show ?thesis using Cons.prems trans by auto
  next
    case False
    then have "cmp y x \<le> 0" using total [of x y] by simp
    then show ?thesis using False Cons by (auto simp: set_insertBy)
  qed
qed

lemma sorted_sortBy:
  assumes "\<And>a b. cmp a b \<le> 0 \<or> cmp b a \<le> 0"
    and "\<And>a b c. cmp a b \<le> 0 \<Longrightarrow> cmp b c \<le> 0 \<Longrightarrow> cmp a c \<le> 0"
  shows "sorted_wrt (\<lambda>a b. cmp a b \<le> 0) (sortBy cmp xs)"
proof (induction xs)
  case Nil
  show ?case by simp
next
  case (Cons x xs)
  have "sorted_wrt (\<lambda>a b. cmp a b \<le> 0) (insertBy cmp x (sortBy cmp xs))"
    by (rule sorted_insertBy [of cmp, OF assms Cons.IH])
  then show ?case by simp
qed

lemma codeUnitCompare_total: "codeUnitCompare a b \<le> 0 \<or> codeUnitCompare b a \<le> 0"
  by (induction a b rule: codeUnitCompare.induct) auto

lemma codeUnitCompare_trans:
  "codeUnitCompare a b \<le> 0 \<Longrightarrow> codeUnitCompare b c \<le> 0 \<Longrightarrow> codeUnitCompare a c \<le> 0"
proof (induction a arbitrary: b c)
  case Nil
  then show ?case by (cases c) auto
next
  case (Cons x xs)
  show ?case
  proof (cases b)
    case Nil
    then show ?thesis using Cons.prems by simp
  next
    case b: (Cons y ys)
    show ?thesis
    proof (cases c)
      case Nil
      then show ?thesis using Cons.prems b by (auto split: if_splits)
    next
      case c: (Cons z zs)
      show ?thesis
        using Cons.prems Cons.IH [of ys zs] b c by (auto split: if_splits)
    qed
  qed
qed

lemma fieldValue_eta: "\<lparr>Field = Field x, Value = Value x\<rparr> = (x :: 'v fieldValue)"
  by (cases x) simp

lemma requestKey_getProducts: "requestKey e (getProducts e sc fs) = cacheKey e sc fs"
  by (simp add: requestKey_def getProducts_def allFilters_def comp_def fieldValue_eta)

lemma queryPrice_again:
  assumes "queryPrice e sc fs s = (r, s')"
  shows "queryPrice e sc fs s' = (r, s')"
  using assms by (auto simp: queryPrice_def Let_def split: option.splits)

lemma queryPrice_cache:
  assumes "queryPrice e sc fs s = (r, s')"
  shows "priceCache s \<subseteq>\<^sub>m priceCache s' \<and> cacheKey e sc fs \<in> dom (priceCache s')"
  using assms by (auto simp: queryPrice_def Let_def map_le_def split: option.splits)

lemma queryPrice_oncePerKey:
  assumes "oncePerKey e s" and "queryPrice e sc fs s = (r, s')"
  shows "oncePerKey e s'"
proof (cases "priceCache s (cacheKey e sc fs)")
  case None
  then have k: "cacheKey e sc fs \<notin> set (map (requestKey e) (sent s))"
    using assms(1) by (auto simp: oncePerKey_def)
  have s': "s' = s\<lparr>priceCache := (priceCache s)(cacheKey e sc fs \<mapsto> r),
                   sent := sent s @ [getProducts e sc fs]\<rparr>"
    using assms(2) queryPrice_miss [OF None] by auto
  show ?thesis
    using assms(1) k by (auto simp: s' oncePerKey_def requestKey_getProducts)
next
  case (Some c)
  then have "s' = s" using assms(2) queryPrice_hit [OF Some] by simp
  then show ?thesis using assms(1) by simp
qed

lemma priceResource_cache:
  assumes "priceResource e m res s = (c, s')"
  shows "(oncePerKey e s \<longrightarrow> oncePerKey e s') \<and> priceCache s \<subseteq>\<^sub>m priceCache s'
         \<and> set (requestedKeys e m res) \<subseteq> dom (priceCache s')"
proof -
  have pc: "\<And>t n. oncePerKey e (t\<lparr>pricedCount := n\<rparr>) = oncePerKey e t"
    by (simp add: oncePerKey_def)
  consider (add) "res_action res = ''ADD''" | (rem) "res_action res = ''REMOVE''"
    | (upd) "res_action res = ''UPDATE''"
    | (other) "res_action res \<noteq> ''ADD''" "res_action res \<noteq> ''REMOVE''" "res_action res \<noteq> ''UPDATE''"
    by blast
  then show ?thesis
  proof cases
    case add
    obtain r s1 where q: "queryPrice e (serviceCode m) (buildFilters m (properties res) True) s = (r, s1)"
      by (metis surj_pair)
    have "priceCache s' = priceCache s1 \<and> (oncePerKey e s' = oncePerKey e s1)"
      using assms add q by (auto simp: priceResource_def pc split: option.splits)
    then show ?thesis
      using queryPrice_cache [OF q] queryPrice_oncePerKey [OF _ q] add
      by (auto simp: requestedKeys_def directions_def)
  next
    case rem
    obtain r s1 where q: "queryPrice e (serviceCode m) (buildFilters m (properties res) False) s = (r, s1)"
      by (metis surj_pair)
    have "priceCache s' = priceCache s1 \<and> (oncePerKey e s' = oncePerKey e s1)"
      using assms rem q by (auto simp: priceResource_def pc split: option.splits)
    then show ?thesis
      using queryPrice_cache [OF q] queryPrice_oncePerKey [OF _ q] rem
      by (auto simp: requestedKeys_def directions_def)
  next
    case upd
    obtain r1 s1 where q1: "queryPrice e (serviceCode m) (buildFilters m (properties res) False) s = (r1, s1)"
      by (metis surj_pair)
    obtain r2 s2 where q2: "queryPrice e (serviceCode m) (buildFilters m (properties res) True) s1 = (r2, s2)"
      by (metis surj_pair)
    have e: "priceCache s' = priceCache s2 \<and> (oncePerKey e s' = oncePerKey e s2)"
      using assms upd q1 q2 by (auto simp: priceResource_def pc split: if_splits)
    have le: "priceCache s \<subseteq>\<^sub>m priceCache s2"
      using queryPrice_cache [OF q1] queryPrice_cache [OF q2] map_le_trans by blast
    have k1: "cacheKey e (serviceCode m) (buildFilters m (properties res) False) \<in> dom (priceCache s2)"
      using queryPrice_cache [OF q1] queryPrice_cache [OF q2] map_le_implies_dom_le by blast
    have k2: "cacheKey e (serviceCode m) (buildFilters m (properties res) True) \<in> dom (priceCache s2)"
      using queryPrice_cache [OF q2] by blast
    have inv: "oncePerKey e s \<longrightarrow> oncePerKey e s2"
      using queryPrice_oncePerKey [OF _ q1] queryPrice_oncePerKey [OF _ q2] by blast
    show ?thesis
      using e le k1 k2 inv upd by (simp add: requestedKeys_def directions_def)
  next
    case other
    then have "s' = s" using assms by (simp add: priceResource_def)
    then show ?thesis using other by (simp add: requestedKeys_def directions_def)
  qed
qed

lemma processResource_cache:
  "(oncePerKey e s \<longrightarrow> oncePerKey e (processResource e rm stack res s))
   \<and> priceCache s \<subseteq>\<^sub>m priceCache (processResource e rm stack res s)
   \<and> (getsRow rm res \<and> rules rm (res_type res) = Some m \<longrightarrow>
        set (requestedKeys e m res) \<subseteq> dom (priceCache (processResource e rm stack res s)))"
  using processResource_cases [of res e rm stack s]
proof (elim disjE exE conjE)
  fix m' b a s1
  assume g: "getsRow rm res" "rules rm (res_type res) = Some m'"
    and p: "priceResource e m' res s = ((b, a), s1)"
    and r: "processResource e rm stack res s =
            (case deltaOf b a of None \<Rightarrow> s1 | Some x \<Rightarrow> s1\<lparr>totalDelta := totalDelta s1 + x\<rparr>)
              \<lparr>rows := rows s @
                 [\<lparr>row_stack = stack, row_id = cleanId (logicalId res),
                   row_type = shortType (res_type res),
                   detail = (if res_action res = ''UPDATE''
                             then detailLoop (filters m') (properties res) else []),
                   row_action = res_action res, before = b, after = a, delta = deltaOf b a\<rparr>]\<rparr>"
  have c: "priceCache (processResource e rm stack res s) = priceCache s1"
    and l: "sent (processResource e rm stack res s) = sent s1"
    by (simp_all add: r split: option.splits)
  have o: "oncePerKey e (processResource e rm stack res s) = oncePerKey e s1"
    by (simp add: oncePerKey_def c l)
  show ?thesis
    using priceResource_cache [OF p] g by (auto simp: c o)
qed (auto simp: oncePerKey_def getsRow_def throwsOn_def memberOf_def)

lemma count_list_distinct: "distinct xs \<Longrightarrow> x \<in> set xs \<Longrightarrow> count_list xs x = 1"
  by (induction xs) auto

lemma main_oncePerKey: "oncePerKey e (main e diffData rm)"
proof (rule main_invariant)
  show "oncePerKey e initial" by (simp add: oncePerKey_def initial_def)
next
  fix stack res s assume "oncePerKey e s"
  then show "oncePerKey e (processResource e rm stack res s)"
    using processResource_cache by blast
qed

lemma main_requested:
  assumes "thrown (main e diffData rm) = None"
    and "st \<in> set (stacks diffData)" and "hasDiff st" and "res \<in> set (resources st)"
    and "getsRow rm res" and "rules rm (res_type res) = Some m"
    and "k \<in> set (requestedKeys e m res)"
  shows "k \<in> dom (priceCache (main e diffData rm))"
proof (rule main_established [OF assms(1-4), where Q = "\<lambda>t. k \<in> dom (priceCache t)"])
  fix t
  show "k \<in> dom (priceCache (processResource e rm (stackName st) res t))"
    using processResource_cache [of e t rm "stackName st" res m] assms(5-7) by blast
next
  fix t :: state and stack r
  assume "k \<in> dom (priceCache t)"
  then show "k \<in> dom (priceCache (processResource e rm stack r t))"
    using processResource_cache [of e t rm stack r] map_le_implies_dom_le by blast
qed

text \<open>
  C4. The key of a lookup is the service code with the filters rearranged by the sort on
  the field name, in ascending order whenever the collation is a total preorder, and the
  request sent for a lookup has that key. A lookup repeated in the
  state the first one left returns the same answer and sends nothing; a lookup whose key
  is cached is answered from the cache, whatever is cached, the null of a failed or empty
  lookup included. Over a whole run, also one that an exception ends, no two requests sent
  have the same key and the keys sent are the keys cached; in a run that no exception ends,
  every key that a resource of the report asks for was sent to the service exactly once,
  however many resources ask for it.
\<close>

theorem one_call_per_key:
  "key_serviceCode (cacheKey e sc fs) = sc \<and> mset (key_filters (cacheKey e sc fs)) = mset fs
   \<and> ((\<forall>a b. localeCompare e a b \<le> 0 \<or> localeCompare e b a \<le> 0)
        \<and> (\<forall>a b c. localeCompare e a b \<le> 0 \<and> localeCompare e b c \<le> 0
               \<longrightarrow> localeCompare e a c \<le> 0) \<longrightarrow>
        sorted_wrt (\<lambda>a b. localeCompare e (Field a) (Field b) \<le> 0)
          (key_filters (cacheKey e sc fs)))
   \<and> requestKey e (getProducts e sc fs) = cacheKey e sc fs
   \<and> (queryPrice e sc fs s = (r, s') \<longrightarrow> queryPrice e sc fs s' = (r, s'))
   \<and> (priceCache s (cacheKey e sc fs) = Some c \<longrightarrow> queryPrice e sc fs s = (c, s))
   \<and> distinct (map (requestKey e) (sent (main e diffData rm)))
   \<and> set (map (requestKey e) (sent (main e diffData rm))) = dom (priceCache (main e diffData rm))
   \<and> (thrown (main e diffData rm) = None
        \<and> st \<in> set (stacks diffData) \<and> hasDiff st \<and> res \<in> set (resources st) \<and> getsRow rm res
        \<and> rules rm (res_type res) = Some m \<and> k \<in> set (requestedKeys e m res) \<longrightarrow>
        count_list (map (requestKey e) (sent (main e diffData rm))) k = 1)"
proof -
  have a1: "key_serviceCode (cacheKey e sc fs) = sc"
    by (simp add: cacheKey_def)
  have a2: "mset (key_filters (cacheKey e sc fs)) = mset fs"
    by (simp add: cacheKey_def mset_sortBy)
  have a3: "(\<forall>a b. localeCompare e a b \<le> 0 \<or> localeCompare e b a \<le> 0)
        \<and> (\<forall>a b c. localeCompare e a b \<le> 0 \<and> localeCompare e b c \<le> 0
               \<longrightarrow> localeCompare e a c \<le> 0) \<longrightarrow>
        sorted_wrt (\<lambda>a b. localeCompare e (Field a) (Field b) \<le> 0)
          (key_filters (cacheKey e sc fs))"
  proof (intro impI, elim conjE)
    assume total: "\<forall>a b. localeCompare e a b \<le> 0 \<or> localeCompare e b a \<le> 0"
      and trans: "\<forall>a b c. localeCompare e a b \<le> 0 \<and> localeCompare e b c \<le> 0
               \<longrightarrow> localeCompare e a c \<le> 0"
    have "sorted_wrt (\<lambda>a b. localeCompare e (Field a) (Field b) \<le> 0)
        (sortBy (\<lambda>a b. localeCompare e (Field a) (Field b)) fs)"
    proof (rule sorted_sortBy)
      fix a b :: "string fieldValue"
      show "localeCompare e (Field a) (Field b) \<le> 0 \<or> localeCompare e (Field b) (Field a) \<le> 0"
        using total by blast
    next
      fix a b c :: "string fieldValue"
      assume "localeCompare e (Field a) (Field b) \<le> 0" "localeCompare e (Field b) (Field c) \<le> 0"
      then show "localeCompare e (Field a) (Field c) \<le> 0" using trans by blast
    qed
    then show "sorted_wrt (\<lambda>a b. localeCompare e (Field a) (Field b) \<le> 0)
          (key_filters (cacheKey e sc fs))"
      by (simp add: cacheKey_def)
  qed
  have b: "requestKey e (getProducts e sc fs) = cacheKey e sc fs"
    by (rule requestKey_getProducts)
  have c: "queryPrice e sc fs s = (r, s') \<longrightarrow> queryPrice e sc fs s' = (r, s')"
    by (rule impI) (rule queryPrice_again)
  have d: "priceCache s (cacheKey e sc fs) = Some c \<longrightarrow> queryPrice e sc fs s = (c, s)"
    by (rule impI) (rule queryPrice_hit)
  have i1: "distinct (map (requestKey e) (sent (main e diffData rm)))"
    using main_oncePerKey [of e diffData rm] by (simp add: oncePerKey_def)
  have i2: "set (map (requestKey e) (sent (main e diffData rm))) = dom (priceCache (main e diffData rm))"
    using main_oncePerKey [of e diffData rm] by (simp add: oncePerKey_def)
  have f: "thrown (main e diffData rm) = None
        \<and> st \<in> set (stacks diffData) \<and> hasDiff st \<and> res \<in> set (resources st) \<and> getsRow rm res
        \<and> rules rm (res_type res) = Some m \<and> k \<in> set (requestedKeys e m res) \<longrightarrow>
        count_list (map (requestKey e) (sent (main e diffData rm))) k = 1"
  proof (intro impI, elim conjE)
    assume h: "thrown (main e diffData rm) = None"
      "st \<in> set (stacks diffData)" "hasDiff st" "res \<in> set (resources st)" "getsRow rm res"
      "rules rm (res_type res) = Some m" "k \<in> set (requestedKeys e m res)"
    have "k \<in> dom (priceCache (main e diffData rm))" by (rule main_requested [OF h])
    then have "k \<in> set (map (requestKey e) (sent (main e diffData rm)))" by (simp only: i2)
    then show "count_list (map (requestKey e) (sent (main e diffData rm))) k = 1"
      by (rule count_list_distinct [OF i1])
  qed
  show ?thesis
    by (insert a1 a2 a3 b c d i1 i2 f, intro conjI) assumption+
qed

theorem one_call_per_key_witness:
  "thrown (main sample_env
      (sample_report [sample_resource ''VM'' ''ADD'' [], sample_resource ''VM'' ''ADD'' []]) sample_map)
     = None
   \<and> key_filters (cacheKey sample_env ''C''
       [\<lparr>Field = ''size'', Value = ''small''\<rparr>, \<lparr>Field = ''os'', Value = ''Linux''\<rparr>])
     = [\<lparr>Field = ''os'', Value = ''Linux''\<rparr>, \<lparr>Field = ''size'', Value = ''small''\<rparr>]
   \<and> sorted_wrt (\<lambda>a b. localeCompare sample_env (Field a) (Field b) \<le> 0)
        (key_filters (cacheKey sample_env ''C''
          [\<lparr>Field = ''size'', Value = ''small''\<rparr>, \<lparr>Field = ''os'', Value = ''Linux''\<rparr>]))
   \<and> queryPrice sample_env ''C'' [\<lparr>Field = ''os'', Value = ''Linux''\<rparr>] initial
     = (Some \<lparr>usd = 1 / 20, unit = ''Hrs'', description = []\<rparr>,
        snd (queryPrice sample_env ''C'' [\<lparr>Field = ''os'', Value = ''Linux''\<rparr>] initial))
   \<and> queryPrice sample_env ''C'' [\<lparr>Field = ''os'', Value = ''Linux''\<rparr>]
        (snd (queryPrice sample_env ''C'' [\<lparr>Field = ''os'', Value = ''Linux''\<rparr>] initial))
     = (Some \<lparr>usd = 1 / 20, unit = ''Hrs'', description = []\<rparr>,
        snd (queryPrice sample_env ''C'' [\<lparr>Field = ''os'', Value = ''Linux''\<rparr>] initial))
   \<and> \<lparr>stackName = ''Net'', hasDiff = True,
        resources = [sample_resource ''VM'' ''ADD'' [], sample_resource ''VM'' ''ADD'' []]\<rparr>
       \<in> set (stacks (sample_report [sample_resource ''VM'' ''ADD'' [], sample_resource ''VM'' ''ADD'' []]))
   \<and> getsRow sample_map (sample_resource ''VM'' ''ADD'' [])
   \<and> rules sample_map (res_type (sample_resource ''VM'' ''ADD'' [])) = Some (sample_rule ''C'')
   \<and> cacheKey sample_env ''C'' [\<lparr>Field = ''os'', Value = ''Linux''\<rparr>]
       \<in> set (requestedKeys sample_env (sample_rule ''C'') (sample_resource ''VM'' ''ADD'' []))
   \<and> count_list (map (requestKey sample_env) (sent (main sample_env
        (sample_report [sample_resource ''VM'' ''ADD'' [], sample_resource ''VM'' ''ADD'' []]) sample_map)))
        (cacheKey sample_env ''C'' [\<lparr>Field = ''os'', Value = ''Linux''\<rparr>]) = 1
   \<and> length (sent (main sample_env
        (sample_report [sample_resource ''VM'' ''ADD'' [], sample_resource ''VM'' ''ADD'' []]) sample_map)) = 1
   \<and> map after (rows (main sample_env
      (sample_report [sample_resource ''VM'' ''ADD'' [], sample_resource ''VM'' ''ADD'' []]) sample_map))
     = [Some (73 / 2), Some (73 / 2)]"
proof -
  let ?k = "[\<lparr>Field = ''os'', Value = ''Linux''\<rparr>]"
  let ?vm = "sample_resource ''VM'' ''ADD'' []"
  let ?st = "\<lparr>stackName = ''Net'', hasDiff = True, resources = [?vm, ?vm]\<rparr>"
  note t = one_call_per_key [of sample_env "''C''" ?k initial
      "Some \<lparr>usd = 1 / 20, unit = ''Hrs'', description = []\<rparr>"
      "snd (queryPrice sample_env ''C'' ?k initial)" _ "sample_report [?vm, ?vm]" sample_map
      ?st ?vm "sample_rule ''C''" "cacheKey sample_env ''C'' ?k"]
  have b: "buildFilters (sample_rule ''C'') [] True = ?k"
    by (simp add: buildFilters_def sample_rule_def resolveFilterValue_def truthyStr_def orNull_def)
  have q: "queryPrice sample_env ''C'' ?k initial
     = (Some \<lparr>usd = 1 / 20, unit = ''Hrs'', description = []\<rparr>,
        snd (queryPrice sample_env ''C'' ?k initial))"
    by (simp add: queryPrice_def priceText_def truthyStr_def quoteOf_def sample_defs initial_def
        getProducts_def allFilters_def Let_def cacheKey_def)
  have q2: "queryPrice sample_env ''C'' ?k (snd (queryPrice sample_env ''C'' ?k initial))
     = (Some \<lparr>usd = 1 / 20, unit = ''Hrs'', description = []\<rparr>,
        snd (queryPrice sample_env ''C'' ?k initial))"
    using t q by blast
  have h1: "?st \<in> set (stacks (sample_report [?vm, ?vm]))"
    by (simp add: sample_report_def)
  have h2: "hasDiff ?st" "?vm \<in> set (resources ?st)" by simp_all
  have h3: "getsRow sample_map ?vm"
    by (simp add: getsRow_def skipped_def sample_resource_def sample_map_def startsWithUnderscore_def)
  have h4: "rules sample_map (res_type ?vm) = Some (sample_rule ''C'')"
    by (simp add: sample_resource_def sample_map_def)
  have h5: "cacheKey sample_env ''C'' ?k \<in> set (requestedKeys sample_env (sample_rule ''C'') ?vm)"
    by (simp add: requestedKeys_def directions_def sample_resource_def b) (simp add: sample_rule_def)
  have c: "count_list (map (requestKey sample_env) (sent (main sample_env
        (sample_report [?vm, ?vm]) sample_map))) (cacheKey sample_env ''C'' ?k) = 1"
    using t h1 h2 h3 h4 h5 sample_twice by blast
  have l: "length (sent (main sample_env (sample_report [?vm, ?vm]) sample_map)) = 1"
    using sample_twice by simp
  have o: "key_filters (cacheKey sample_env ''C''
       [\<lparr>Field = ''size'', Value = ''small''\<rparr>, \<lparr>Field = ''os'', Value = ''Linux''\<rparr>])
     = [\<lparr>Field = ''os'', Value = ''Linux''\<rparr>, \<lparr>Field = ''size'', Value = ''small''\<rparr>]"
    by (simp add: cacheKey_def sample_env_def)
  have total: "\<forall>a b. localeCompare sample_env a b \<le> 0 \<or> localeCompare sample_env b a \<le> 0"
    using codeUnitCompare_total by (simp add: sample_env_def)
  have trans: "\<forall>a b c. localeCompare sample_env a b \<le> 0 \<and> localeCompare sample_env b c \<le> 0
      \<longrightarrow> localeCompare sample_env a c \<le> 0"
    using codeUnitCompare_trans by (auto simp: sample_env_def)
  have w: "sorted_wrt (\<lambda>a b. localeCompare sample_env (Field a) (Field b) \<le> 0)
        (key_filters (cacheKey sample_env ''C''
          [\<lparr>Field = ''size'', Value = ''small''\<rparr>, \<lparr>Field = ''os'', Value = ''Linux''\<rparr>]))"
    using one_call_per_key [of sample_env "''C''"
        "[\<lparr>Field = ''size'', Value = ''small''\<rparr>, \<lparr>Field = ''os'', Value = ''Linux''\<rparr>]"]
      total trans by blast
  show ?thesis using o w q q2 h1 h3 h4 h5 c l sample_twice by blast
qed

subsection \<open>Failures\<close>

lemma rows_step:
  "rows (processResource e rm stack res s)
     = rows s @ drop (length (rows s)) (rows (processResource e rm stack res s))
   \<and> length (rows (processResource e rm stack res s))
     = length (rows s) + (if getsRow rm res \<and> \<not> throwsOn rm res then 1 else 0)"
  using processResource_cases [of res e rm stack s]
  by (elim disjE exE conjE) (auto simp: getsRow_def throwsOn_def memberOf_def split: option.splits)

lemma thrown_step:
  "thrown (processResource e rm stack res s)
     = (if throwsOn rm res then Some notIterable else thrown s)"
proof -
  have f: "thrown s1 = thrown s" if "priceResource e m res s = ((b, a), s1)" for m b a s1
    using priceResource_frame [OF that] by simp
  show ?thesis
    using processResource_cases [of res e rm stack s]
    by (elim disjE exE conjE)
      (auto simp: getsRow_def throwsOn_def memberOf_def f split: option.splits)
qed

lemma rows_main:
  assumes "thrown (main e diffData rm) = None"
  shows "length (rows (main e diffData rm)) = length (filter (getsRow rm) (visited diffData))"
proof -
  have "length (rows (processResource e rm stack res s))
      = length (rows s) + (if getsRow rm res then 1 else 0)"
    if "thrown (processResource e rm stack res s) = None" for stack res s
    using rows_step [of e rm stack res s] thrown_step [of e rm stack res s] that
    by (simp split: if_splits)
  then show ?thesis
    using count_main [of e diffData rm "\<lambda>s. length (rows s)" "getsRow rm", OF assms]
    by (simp add: initial_def)
qed

lemma failed_lookup:
  assumes "priceCache s (cacheKey e sc fs) = None"
    and "send e (sent s) (getProducts e sc fs) = Threw msg
         \<or> send e (sent s) (getProducts e sc fs) = Resp []"
  shows "fst (queryPrice e sc fs s) = None"
  using assms queryPrice_miss [OF assms(1)] by (auto simp: quoteOf_def)

lemma sample_inherited:
  "memberOf sample_map ''constructor'' = Inherited
   \<and> thrown (main sample_env
        (sample_report [sample_resource ''VM'' ''ADD'' [], sample_resource ''constructor'' ''ADD'' []])
        sample_map) = Some notIterable"
  by (simp add: run_defs sample_defs)

text \<open>
  C5 fails on the script. A report of the shape the producer writes, with one resource
  that has a rule and a quote and one resource of type \<open>constructor\<close>, for which the map has
  no entry, ends the whole run with an error, although neither input is malformed and no
  lookup failed: the lookup of the type in the map finds the inherited member, the test
  for a missing mapping lets it pass, and the first use of its filters throws.
\<close>

theorem inherited_member_ends_run:
  "rules sample_map ''constructor'' = None
   \<and> estimate sample_env
        (Inr (sample_report [sample_resource ''VM'' ''ADD'' [],
                             sample_resource ''constructor'' ''ADD'' []]))
        (Inr sample_map)
       = Failed ''mapping.filters is not iterable''"
proof -
  have "rules sample_map ''constructor'' = None" by (simp add: sample_map_def)
  then show ?thesis using sample_inherited by (simp add: estimate_def notIterable_def)
qed

subsection \<open>Free resources\<close>

lemma freeCount_step:
  "freeCount (processResource e rm stack res s)
     = freeCount s + (if isFree rm res then 1 else 0)"
proof -
  have f: "freeCount s1 = freeCount s" if "priceResource e m res s = ((b, a), s1)" for m b a s1
    using priceResource_frame [OF that] by simp
  show ?thesis
    using processResource_cases [of res e rm stack s]
    by (elim disjE exE conjE)
      (auto simp: getsRow_def isFree_def throwsOn_def f split: option.splits)
qed

lemma freeCount_main:
  assumes "thrown (main e diffData rm) = None"
  shows "freeCount (main e diffData rm) = length (filter (isFree rm) (visited diffData))"
  using count_main [of e diffData rm freeCount "isFree rm", OF assms] freeCount_step
  by (simp add: initial_def)

text \<open>
  C6, as stated, fails: the guard on the type comes before the free list. A resource of
  type \<open>Unknown\<close> is skipped without being counted, although the free list names it.
\<close>

theorem free_resource_counterexample:
  "res_type (sample_resource ''Unknown'' ''ADD'' []) \<in> set (free sample_map)
   \<and> freeCount (main sample_env (sample_report [sample_resource ''Unknown'' ''ADD'' []]) sample_map)
       = 0"
  by (simp add: run_defs sample_defs)

text \<open>
  C6, amended. For every resource change whose type does not start with an underscore, is
  not \<open>Unknown\<close> and is in the free list of the map, the state changes in the free count
  only, which grows by one: no request is sent, nothing is cached, no row and so no delta
  is produced, and the total is untouched. Over a run that no exception ends, the free
  count is the number of such resources in the stacks that have a difference.
\<close>

theorem free_resource_counted:
  "(\<not> startsWithUnderscore (res_type res) \<and> res_type res \<noteq> ''Unknown''
      \<and> res_type res \<in> set (free rm) \<longrightarrow>
      processResource e rm stack res s = s\<lparr>freeCount := freeCount s + 1\<rparr>)
   \<and> (thrown (main e diffData rm) = None \<longrightarrow>
        freeCount (main e diffData rm) = length (filter (isFree rm) (visited diffData)))"
proof -
  have a: "\<not> startsWithUnderscore (res_type res) \<and> res_type res \<noteq> ''Unknown''
      \<and> res_type res \<in> set (free rm) \<longrightarrow>
      processResource e rm stack res s = s\<lparr>freeCount := freeCount s + 1\<rparr>"
    by (simp add: processResource_def)
  have b: "thrown (main e diffData rm) = None \<longrightarrow>
        freeCount (main e diffData rm) = length (filter (isFree rm) (visited diffData))"
    by (rule impI) (rule freeCount_main)
  show ?thesis using a b by (rule conjI)
qed

theorem free_resource_counted_witness:
  "\<not> startsWithUnderscore (res_type (sample_resource ''Role'' ''ADD'' []))
   \<and> res_type (sample_resource ''Role'' ''ADD'' []) \<noteq> ''Unknown''
   \<and> res_type (sample_resource ''Role'' ''ADD'' []) \<in> set (free sample_map)
   \<and> processResource sample_env sample_map ''Net'' (sample_resource ''Role'' ''ADD'' []) initial
       = initial\<lparr>freeCount := 1\<rparr>
   \<and> freeCount (main sample_env
        (sample_report [sample_resource ''Role'' ''ADD'' [], sample_resource ''Unknown'' ''ADD'' [],
                        sample_resource ''Role'' ''REMOVE'' []]) sample_map) = 2
   \<and> thrown (main sample_env
        (sample_report [sample_resource ''Role'' ''ADD'' [], sample_resource ''Unknown'' ''ADD'' [],
                        sample_resource ''Role'' ''REMOVE'' []]) sample_map) = None"
proof -
  let ?r = "sample_resource ''Role'' ''ADD'' []"
  let ?d = "sample_report [sample_resource ''Role'' ''ADD'' [], sample_resource ''Unknown'' ''ADD'' [],
                        sample_resource ''Role'' ''REMOVE'' []]"
  note t = free_resource_counted [of ?r sample_map sample_env "''Net''" initial ?d]
  have h: "\<not> startsWithUnderscore (res_type ?r)" "res_type ?r \<noteq> ''Unknown''"
      "res_type ?r \<in> set (free sample_map)"
    by (simp_all add: sample_resource_def sample_map_def startsWithUnderscore_def)
  have p: "processResource sample_env sample_map ''Net'' ?r initial = initial\<lparr>freeCount := 1\<rparr>"
    using t h by (simp add: initial_def)
  have v: "length (filter (isFree sample_map) (visited ?d)) = 2"
    by (simp add: visited_def sample_report_def isFree_def skipped_def sample_resource_def
        sample_map_def startsWithUnderscore_def)
  have n: "thrown (main sample_env ?d sample_map) = None"
    by (simp add: run_defs sample_defs)
  have c: "freeCount (main sample_env ?d sample_map) = 2"
    using t v n by simp
  show ?thesis using h p c n by blast
qed

subsection \<open>Resources without a mapping\<close>

text \<open>
  C7, as stated, fails: a row has no field for a reason, and the one count taken from the
  rows, of those with a null delta, does not tell the two cases apart. The same ADD once
  with a mapping whose lookup fails and once without a mapping gives the same rows, the
  same total and the same counters.
\<close>

theorem unmapped_resource_counterexample:
  "rules sample_map ''Db'' = Some (sample_rule ''D'')
   \<and> rules (sample_map\<lparr>rules := Map.empty\<rparr>) ''Db'' = None
   \<and> rows (main sample_env (sample_report [sample_resource ''Db'' ''ADD'' []]) sample_map)
       = rows (main sample_env (sample_report [sample_resource ''Db'' ''ADD'' []])
                (sample_map\<lparr>rules := Map.empty\<rparr>))
   \<and> unmapped (rows (main sample_env (sample_report [sample_resource ''Db'' ''ADD'' []]) sample_map))
       = unmapped (rows (main sample_env (sample_report [sample_resource ''Db'' ''ADD'' []])
                (sample_map\<lparr>rules := Map.empty\<rparr>)))
   \<and> totalDelta (main sample_env (sample_report [sample_resource ''Db'' ''ADD'' []]) sample_map)
       = totalDelta (main sample_env (sample_report [sample_resource ''Db'' ''ADD'' []])
                (sample_map\<lparr>rules := Map.empty\<rparr>))
   \<and> pricedCount (main sample_env (sample_report [sample_resource ''Db'' ''ADD'' []]) sample_map)
       = pricedCount (main sample_env (sample_report [sample_resource ''Db'' ''ADD'' []])
                (sample_map\<lparr>rules := Map.empty\<rparr>))
   \<and> freeCount (main sample_env (sample_report [sample_resource ''Db'' ''ADD'' []]) sample_map)
       = freeCount (main sample_env (sample_report [sample_resource ''Db'' ''ADD'' []])
                (sample_map\<lparr>rules := Map.empty\<rparr>))"
  by (simp add: run_defs sample_defs)

text \<open>
  C7, amended. A resource change that passes the guards (its type does not start with an
  underscore, is not \<open>Unknown\<close> and is not in the free list) and for whose type the lookup
  in the map finds nothing, neither an entry nor an inherited member, adds one row with
  null before, after and delta and an empty detail, and changes nothing else: the total
  and the counters stay, no request is sent, nothing is thrown, the run goes on. The row carries no reason. The count of rows with a null delta grows by one, and a
  resource other than an UPDATE that has a mapping but no quote leaves the very same rows,
  total and counters.
\<close>

theorem unmapped_resource_row:
  assumes "\<not> skipped res" and "res_type res \<notin> set (free rm)"
    and "memberOf rm (res_type res) = Undefined"
  shows "processResource e rm stack res s = s\<lparr>rows := rows s @ [emptyRow stack res]\<rparr>
    \<and> unmapped (rows (processResource e rm stack res s)) = unmapped (rows s) + 1
    \<and> (\<forall>rm' m. free rm' = free rm \<and> rules rm' (res_type res) = Some m
          \<and> res_action res \<noteq> ''UPDATE'' \<and> fst (priceResource e m res s) = (None, None) \<longrightarrow>
          rows (processResource e rm' stack res s) = rows (processResource e rm stack res s)
          \<and> totalDelta (processResource e rm' stack res s) = totalDelta (processResource e rm stack res s)
          \<and> pricedCount (processResource e rm' stack res s) = pricedCount (processResource e rm stack res s)
          \<and> freeCount (processResource e rm' stack res s) = freeCount (processResource e rm stack res s))"
proof -
  have u: "processResource e rm stack res s = s\<lparr>rows := rows s @ [emptyRow stack res]\<rparr>"
    by (rule processResource_unmapped [OF assms])
  have c: "unmapped (rows (processResource e rm stack res s)) = unmapped (rows s) + 1"
    by (simp add: u unmapped_def emptyRow_def)
  have f: "rows (processResource e rm' stack res s) = rows (processResource e rm stack res s)
          \<and> totalDelta (processResource e rm' stack res s) = totalDelta (processResource e rm stack res s)
          \<and> pricedCount (processResource e rm' stack res s) = pricedCount (processResource e rm stack res s)
          \<and> freeCount (processResource e rm' stack res s) = freeCount (processResource e rm stack res s)"
    if h: "free rm' = free rm" "rules rm' (res_type res) = Some m" "res_action res \<noteq> ''UPDATE''"
      "fst (priceResource e m res s) = (None, None)" for rm' m
  proof -
    obtain s1 where p: "priceResource e m res s = ((None, None), s1)"
      using h(4) by (cases "priceResource e m res s") auto
    have nf: "res_type res \<notin> set (free rm')" using assms(2) h(1) by simp
    show ?thesis
      using unpriced_row [OF assms(1) nf h(2) p, of stack] priceResource_frame [OF p] h(3)
      by (simp add: u emptyRow_def)
  qed
  show ?thesis using u c f by blast
qed

theorem unmapped_resource_row_witness:
  "\<not> skipped (sample_resource ''Db'' ''ADD'' [])
   \<and> res_type (sample_resource ''Db'' ''ADD'' []) \<notin> set (free (sample_map\<lparr>rules := Map.empty\<rparr>))
   \<and> memberOf (sample_map\<lparr>rules := Map.empty\<rparr>) (res_type (sample_resource ''Db'' ''ADD'' []))
       = Undefined
   \<and> rules sample_map (res_type (sample_resource ''Db'' ''ADD'' [])) = Some (sample_rule ''D'')
   \<and> fst (priceResource sample_env (sample_rule ''D'') (sample_resource ''Db'' ''ADD'' []) initial)
       = (None, None)
   \<and> rows (processResource sample_env (sample_map\<lparr>rules := Map.empty\<rparr>) ''Net''
             (sample_resource ''Db'' ''ADD'' []) initial)
       = [emptyRow ''Net'' (sample_resource ''Db'' ''ADD'' [])]
   \<and> rows (processResource sample_env sample_map ''Net'' (sample_resource ''Db'' ''ADD'' []) initial)
       = [emptyRow ''Net'' (sample_resource ''Db'' ''ADD'' [])]"
proof -
  have h1: "\<not> skipped (sample_resource ''Db'' ''ADD'' [])"
    by (simp add: skipped_def sample_resource_def startsWithUnderscore_def)
  have h2: "res_type (sample_resource ''Db'' ''ADD'' []) \<notin> set (free (sample_map\<lparr>rules := Map.empty\<rparr>))"
    by (simp add: sample_resource_def sample_map_def)
  have h3: "memberOf (sample_map\<lparr>rules := Map.empty\<rparr>) (res_type (sample_resource ''Db'' ''ADD'' []))
      = Undefined"
    by (simp add: memberOf_def inheritedNames_def sample_resource_def)
  have h4: "rules sample_map (res_type (sample_resource ''Db'' ''ADD'' [])) = Some (sample_rule ''D'')"
    by (simp add: sample_resource_def sample_map_def)
  have h5: "fst (priceResource sample_env (sample_rule ''D'') (sample_resource ''Db'' ''ADD'' []) initial)
       = (None, None)"
    by (simp add: sample_down)
  have h6: "res_action (sample_resource ''Db'' ''ADD'' []) \<noteq> ''UPDATE''"
    by (simp add: sample_resource_def)
  note t = unmapped_resource_row [OF h1 h2 h3, of sample_env "''Net''" initial]
  have r: "rows (processResource sample_env (sample_map\<lparr>rules := Map.empty\<rparr>) ''Net''
             (sample_resource ''Db'' ''ADD'' []) initial)
       = [emptyRow ''Net'' (sample_resource ''Db'' ''ADD'' [])]"
    using t by (simp add: initial_def)
  have "rows (processResource sample_env sample_map ''Net'' (sample_resource ''Db'' ''ADD'' []) initial)
      = rows (processResource sample_env (sample_map\<lparr>rules := Map.empty\<rparr>) ''Net''
             (sample_resource ''Db'' ''ADD'' []) initial)"
    using t h4 h5 h6 by simp
  then show ?thesis using h1 h2 h3 h4 h5 r by simp
qed

subsection \<open>Quotes\<close>

lemma scanDims_positive: "scanDims e ds = Some q \<Longrightarrow> 0 < usd q"
  by (induction ds) (auto split: option.splits if_splits)

lemma scanOffers_positive: "scanOffers e os = Some q \<Longrightarrow> 0 < usd q"
  by (induction os) (auto split: option.splits dest: scanDims_positive)

lemma quoteOf_positive: "quoteOf e resp = Some q \<Longrightarrow> 0 < usd q"
  by (auto simp: quoteOf_def split: response.splits list.splits priceItem.splits option.splits
      dest: scanOffers_positive)

lemma scanDims_zero:
  "\<forall>(k, d) \<in> set ds. parseFloat e (priceText d) = Some 0 \<Longrightarrow> scanDims e ds = None"
  by (induction ds) auto

lemma queryPrice_positive:
  assumes "\<And>k q. priceCache s k = Some (Some q) \<Longrightarrow> 0 < usd q"
    and "queryPrice e sc fs s = (r, s')"
  shows "(\<forall>k q. priceCache s' k = Some (Some q) \<longrightarrow> 0 < usd q) \<and> (\<forall>q. r = Some q \<longrightarrow> 0 < usd q)"
proof (cases "priceCache s (cacheKey e sc fs)")
  case None
  show ?thesis
    using assms(2) assms(1) queryPrice_miss [OF None] quoteOf_positive [of e]
    by (auto split: if_splits)
next
  case (Some c)
  show ?thesis
    using assms(2) assms(1) queryPrice_hit [OF Some] Some by auto
qed

lemma priceResource_positive:
  assumes "\<And>k q. priceCache s k = Some (Some q) \<Longrightarrow> 0 < usd q"
    and "priceResource e m res s = (c, s')"
  shows "\<forall>k q. priceCache s' k = Some (Some q) \<longrightarrow> 0 < usd q"
proof -
  have one: "\<forall>k q. priceCache t' k = Some (Some q) \<longrightarrow> 0 < usd q"
    if "\<forall>k q. priceCache t k = Some (Some q) \<longrightarrow> 0 < usd q"
      "queryPrice e (serviceCode m) (buildFilters m (properties res) u) t = (r, t')" for t t' u r
    using queryPrice_positive [of t e "serviceCode m" "buildFilters m (properties res) u" r t'] that
    by blast
  have s0: "\<forall>k q. priceCache s k = Some (Some q) \<longrightarrow> 0 < usd q" using assms(1) by blast
  consider (add) "res_action res = ''ADD''" | (rem) "res_action res = ''REMOVE''"
    | (upd) "res_action res = ''UPDATE''"
    | (other) "res_action res \<noteq> ''ADD''" "res_action res \<noteq> ''REMOVE''" "res_action res \<noteq> ''UPDATE''"
    by blast
  then show ?thesis
  proof cases
    case add
    obtain r s1 where q: "queryPrice e (serviceCode m) (buildFilters m (properties res) True) s = (r, s1)"
      by (metis surj_pair)
    have "priceCache s' = priceCache s1"
      using assms(2) add q by (auto simp: priceResource_def split: option.splits)
    then show ?thesis using one [OF s0 q] by simp
  next
    case rem
    obtain r s1 where q: "queryPrice e (serviceCode m) (buildFilters m (properties res) False) s = (r, s1)"
      by (metis surj_pair)
    have "priceCache s' = priceCache s1"
      using assms(2) rem q by (auto simp: priceResource_def split: option.splits)
    then show ?thesis using one [OF s0 q] by simp
  next
    case upd
    obtain r1 s1 where q1: "queryPrice e (serviceCode m) (buildFilters m (properties res) False) s = (r1, s1)"
      by (metis surj_pair)
    obtain r2 s2 where q2: "queryPrice e (serviceCode m) (buildFilters m (properties res) True) s1 = (r2, s2)"
      by (metis surj_pair)
    have "priceCache s' = priceCache s2"
      using assms(2) upd q1 q2 by (auto simp: priceResource_def split: if_splits)
    then show ?thesis using one [OF one [OF s0 q1] q2] by simp
  next
    case other
    then have "s' = s" using assms(2) by (simp add: priceResource_def)
    then show ?thesis using s0 by simp
  qed
qed

lemma main_positive: "\<forall>k q. priceCache (main e diffData rm) k = Some (Some q) \<longrightarrow> 0 < usd q"
proof (rule main_invariant)
  show "\<forall>k q. priceCache initial k = Some (Some q) \<longrightarrow> 0 < usd q"
    by (simp add: initial_def)
next
  fix stack res and s :: state
  assume a: "\<forall>k q. priceCache s k = Some (Some q) \<longrightarrow> 0 < usd q"
  have p: "\<forall>k q. priceCache s1 k = Some (Some q) \<longrightarrow> 0 < usd q"
    if "priceResource e m res s = (c, s1)" for m c s1
    using priceResource_positive [of s e m res c s1] a that by blast
  show "\<forall>k q. priceCache (processResource e rm stack res s) k = Some (Some q) \<longrightarrow> 0 < usd q"
    using processResource_cases [of res e rm stack s]
  proof (elim disjE exE conjE)
    fix m b c s1
    assume pr: "priceResource e m res s = ((b, c), s1)"
      and r: "processResource e rm stack res s =
            (case deltaOf b c of None \<Rightarrow> s1 | Some x \<Rightarrow> s1\<lparr>totalDelta := totalDelta s1 + x\<rparr>)
              \<lparr>rows := rows s @
                 [\<lparr>row_stack = stack, row_id = cleanId (logicalId res),
                   row_type = shortType (res_type res),
                   detail = (if res_action res = ''UPDATE''
                             then detailLoop (filters m) (properties res) else []),
                   row_action = res_action res, before = b, after = c, delta = deltaOf b c\<rparr>]\<rparr>"
    have "priceCache (processResource e rm stack res s) = priceCache s1"
      by (simp add: r split: option.splits)
    then show ?thesis using p [OF pr] by simp
  qed (use a in auto)
qed

text \<open>
  C8, as stated, fails: the scan of the price dimensions passes over every price that is
  not above zero, so a product priced at zero gives no quote, the outcome of a lookup
  that matches no product.
\<close>

theorem zero_price_counterexample:
  "send sample_env [] (getProducts sample_env ''Z'' []) = priced ''0''
   \<and> parseFloat sample_env ''0'' = Some 0
   \<and> fst (queryPrice sample_env ''Z'' [] initial) = None
   \<and> send sample_env [] (getProducts sample_env ''N'' []) = Resp []
   \<and> fst (queryPrice sample_env ''N'' [] initial) = None"
  by (simp add: queryPrice_def quoteOf_def priceText_def truthyStr_def sample_defs initial_def
      getProducts_def allFilters_def Let_def cacheKey_def)

text \<open>
  C8, amended. A quote returned by a lookup that was not answered from the cache carries
  a unit price above zero, and so does every quote in the cache of a run; a product whose
  dimensions are all priced at zero gives no quote, as an empty price list does.
\<close>

theorem quote_is_positive:
  "(priceCache s (cacheKey e sc fs) = None \<and> fst (queryPrice e sc fs s) = Some q \<longrightarrow> 0 < usd q)
   \<and> ((\<forall>(k, d) \<in> set ds. parseFloat e (priceText d) = Some 0) \<longrightarrow>
        quoteOf e (Resp (Product \<lparr>terms_OnDemand = Some [(k0, \<lparr>priceDimensions = Some ds\<rparr>)]\<rparr> # rest))
          = quoteOf e (Resp []))
   \<and> (priceCache (main e diffData rm) key = Some (Some cached) \<longrightarrow> 0 < usd cached)"
proof -
  have a: "0 < usd q" if "priceCache s (cacheKey e sc fs) = None" "fst (queryPrice e sc fs s) = Some q"
    using that queryPrice_miss [of s e sc fs] quoteOf_positive [of e _ q] by simp
  have b: "quoteOf e (Resp (Product \<lparr>terms_OnDemand = Some [(k0, \<lparr>priceDimensions = Some ds\<rparr>)]\<rparr> # rest))
          = quoteOf e (Resp [])"
    if "\<forall>(k, d) \<in> set ds. parseFloat e (priceText d) = Some 0"
    using scanDims_zero [OF that] by (simp add: quoteOf_def)
  have c: "priceCache (main e diffData rm) key = Some (Some cached) \<longrightarrow> 0 < usd cached"
    using main_positive [of e diffData rm] by blast
  show ?thesis using a b c by blast
qed

theorem quote_is_positive_witness:
  "priceCache initial (cacheKey sample_env ''C'' []) = None
   \<and> fst (queryPrice sample_env ''C'' [] initial) = Some \<lparr>usd = 1 / 20, unit = ''Hrs'', description = []\<rparr>
   \<and> 0 < usd \<lparr>usd = 1 / 20, unit = ''Hrs'', description = []\<rparr>
   \<and> parseFloat sample_env
         (priceText \<lparr>pricePerUnit_USD = Some ''0'', dim_unit = None, dim_description = None\<rparr>) = Some 0
   \<and> quoteOf sample_env (Resp [Product \<lparr>terms_OnDemand = Some [(''o'', \<lparr>priceDimensions = Some
         [(''d'', \<lparr>pricePerUnit_USD = Some ''0'', dim_unit = None, dim_description = None\<rparr>)]\<rparr>)]\<rparr>])
       = quoteOf sample_env (Resp [])
   \<and> priceCache (main sample_env (sample_report [sample_resource ''VM'' ''ADD'' []]) sample_map)
        (cacheKey sample_env ''C'' [\<lparr>Field = ''os'', Value = ''Linux''\<rparr>])
       = Some (Some \<lparr>usd = 1 / 20, unit = ''Hrs'', description = []\<rparr>)
   \<and> 0 < usd \<lparr>usd = 1 / 20, unit = ''Hrs'', description = []\<rparr>"
proof -
  have h1: "priceCache initial (cacheKey sample_env ''C'' []) = None"
    by (simp add: initial_def)
  have h2: "fst (queryPrice sample_env ''C'' [] initial)
      = Some \<lparr>usd = 1 / 20, unit = ''Hrs'', description = []\<rparr>"
    by (simp add: queryPrice_def quoteOf_def priceText_def truthyStr_def sample_defs initial_def
      getProducts_def allFilters_def Let_def cacheKey_def)
  have h3: "\<forall>(k, d) \<in> set [(''d'', \<lparr>pricePerUnit_USD = Some ''0'', dim_unit = None, dim_description = None\<rparr>)].
         parseFloat sample_env (priceText d) = Some 0"
    by (simp add: priceText_def truthyStr_def sample_env_def)
  note t = quote_is_positive [of initial sample_env "''C''" "[]"
      "\<lparr>usd = 1 / 20, unit = ''Hrs'', description = []\<rparr>"
      "[(''d'', \<lparr>pricePerUnit_USD = Some ''0'', dim_unit = None, dim_description = None\<rparr>)]"
      "''o''" "[]"]
  have h4: "parseFloat sample_env
         (priceText \<lparr>pricePerUnit_USD = Some ''0'', dim_unit = None, dim_description = None\<rparr>) = Some 0"
    by (simp add: priceText_def truthyStr_def sample_env_def)
  have h5: "priceCache (main sample_env (sample_report [sample_resource ''VM'' ''ADD'' []]) sample_map)
        (cacheKey sample_env ''C'' [\<lparr>Field = ''os'', Value = ''Linux''\<rparr>])
       = Some (Some \<lparr>usd = 1 / 20, unit = ''Hrs'', description = []\<rparr>)"
    by (simp add: run_defs sample_defs)
  show ?thesis using t h1 h2 h3 h4 h5 by simp
qed

subsection \<open>The change detail\<close>

lemma detailLoop_spec: "detailLoop fs props = detail_spec fs props"
  by (induction fs) (auto simp: detail_spec_def changed_def split: option.splits)

text \<open>
  C9. An UPDATE that passes the guards, and whose type the lookup in the map does not
  answer with an inherited member (on which the run ends and no row exists), adds one row,
  and the detail of that row is found
  by going through the filters of the rule in their order: the first filter that reads a
  property whose change has an old and a new value, both not empty and different, gives
  the old value, an arrow and the new value; when there is no such filter, or no rule,
  the detail is empty.
\<close>

theorem update_detail:
  assumes "\<not> skipped res" and "res_type res \<notin> set (free rm)"
    and "res_action res = ''UPDATE''"
    and "memberOf rm (res_type res) \<noteq> Inherited"
  shows "length (rows (processResource e rm stack res s)) = length (rows s) + 1
    \<and> detail (last (rows (processResource e rm stack res s))) =
        (case rules rm (res_type res) of
           None \<Rightarrow> []
         | Some m \<Rightarrow> detail_spec (filters m) (properties res))"
proof (cases "rules rm (res_type res)")
  case None
  then have u: "memberOf rm (res_type res) = Undefined"
    using assms(4) by (simp add: memberOf_def split: if_splits)
  show ?thesis
    using processResource_unmapped [OF assms(1,2) u, of e stack s] None
    by (simp add: emptyRow_def)
next
  case (Some m)
  obtain b a s1 where p: "priceResource e m res s = ((b, a), s1)"
    by (metis surj_pair)
  show ?thesis
    using processResource_mapped [OF assms(1,2) Some p, of stack] Some assms(3)
    by (simp add: detailLoop_spec)
qed

theorem update_detail_witness:
  "\<not> skipped (sample_resource ''VM'' ''UPDATE'' resize)
   \<and> res_type (sample_resource ''VM'' ''UPDATE'' resize) \<notin> set (free sample_map)
   \<and> res_action (sample_resource ''VM'' ''UPDATE'' resize) = ''UPDATE''
   \<and> memberOf sample_map (res_type (sample_resource ''VM'' ''UPDATE'' resize)) \<noteq> Inherited
   \<and> detail (last (rows (processResource sample_env sample_map ''Net''
         (sample_resource ''VM'' ''UPDATE'' resize) initial)))
      = ''small'' @ arrow @ ''large''"
proof -
  have h1: "\<not> skipped (sample_resource ''VM'' ''UPDATE'' resize)"
    by (simp add: skipped_def sample_resource_def startsWithUnderscore_def)
  have h2: "res_type (sample_resource ''VM'' ''UPDATE'' resize) \<notin> set (free sample_map)"
    by (simp add: sample_resource_def sample_map_def)
  have h3: "res_action (sample_resource ''VM'' ''UPDATE'' resize) = ''UPDATE''"
    by (simp add: sample_resource_def)
  have d: "detail_spec (filters (sample_rule ''C'')) resize = ''small'' @ arrow @ ''large''"
    by (simp add: detail_spec_def changed_def sample_rule_def resize_def truthyStr_def)
  have h4: "memberOf sample_map (res_type (sample_resource ''VM'' ''UPDATE'' resize)) \<noteq> Inherited"
    by (simp add: memberOf_def sample_resource_def sample_map_def)
  have r: "rules sample_map (res_type (sample_resource ''VM'' ''UPDATE'' resize))
      = Some (sample_rule ''C'')"
    by (simp add: sample_resource_def sample_map_def)
  have "detail (last (rows (processResource sample_env sample_map ''Net''
         (sample_resource ''VM'' ''UPDATE'' resize) initial)))
      = ''small'' @ arrow @ ''large''"
    using update_detail [OF h1 h2 h3 h4, of sample_env "''Net''" initial] d
    by (simp add: r) (simp add: sample_resource_def)
  then show ?thesis using h1 h2 h3 h4 by blast
qed

subsection \<open>Skipped resources\<close>

text \<open>
  C10. A resource change whose type starts with an underscore or is \<open>Unknown\<close> leaves the
  state as it was: no row, no request, nothing cached, no counter and no total changed.
\<close>

theorem skipped_resource_is_ignored:
  "startsWithUnderscore (res_type res) \<or> res_type res = ''Unknown'' \<Longrightarrow>
   processResource e rm stack res s = s"
  by (auto simp: processResource_def)

theorem skipped_resource_is_ignored_witness:
  "(startsWithUnderscore (res_type (sample_resource ''_meta'' ''ADD'' []))
      \<or> res_type (sample_resource ''_meta'' ''ADD'' []) = ''Unknown'')
   \<and> processResource sample_env sample_map ''Net'' (sample_resource ''_meta'' ''ADD'' []) initial
       = initial"
  using skipped_resource_is_ignored
    [of "sample_resource ''_meta'' ''ADD'' []" sample_env sample_map "''Net''" initial]
  by (simp add: sample_resource_def startsWithUnderscore_def)

end
